theory Spec2Isabelle
  imports Complex_Main "HOL-Library.Word" "HOL-Library.Log_Nat"
begin

unbundle bit_operations_syntax

section \<open>bandw: a bandwidth meter over raw ethernet frames (test5.cpp)\<close>

text \<open>
  The program opens a raw packet socket, builds one ethernet header and one link-layer
  socket address, and then runs one of two roles: the transmitter sends
  \<open>packet_count\<close> frames and then receives as many, the responder does the same in
  the opposite order. Everything the operating system answers (allocation, socket,
  ioctl, bind, sendto, recvfrom, the clock) is an input of the model; the system calls
  the program makes are recorded, in program order, in a trace.
\<close>

subsection \<open>Machine types and constants\<close>

type_synonym byte = "8 word"
type_synonym u16 = "16 word"
type_synonym u32 = "32 word"
type_synonym u64 = "64 word"

text \<open>The byte order of the running process.\<close>

datatype endian = LittleEndian | BigEndian

definition magic :: u32 where
  "magic = 0x32100123"

text \<open>
  Modelled from the spec: the constants of the system headers
  (\<open>net/ethernet.h\<close>, \<open>net/if.h\<close>, \<open>linux/if_ether.h\<close>), which are not part of the
  repository. The spec and the comments of lines 33-35 give the frame geometry: a
  14-octet header, six-octet hardware addresses, 46 octets of payload in the minimal
  frame and 1500 in the full one.
\<close>

definition ETH_ALEN :: nat where "ETH_ALEN = 6"
definition ETH_HLEN :: nat where "ETH_HLEN = 14"
definition ETH_ZLEN :: nat where "ETH_ZLEN = 60"
definition ETH_DATA_LEN :: nat where "ETH_DATA_LEN = 1500"
definition ETH_FRAME_LEN :: nat where "ETH_FRAME_LEN = 1514"
definition ETH_P_IP :: u16 where "ETH_P_IP = 0x0800"
definition IFNAMSIZ :: nat where "IFNAMSIZ = 16"
definition AF_PACKET :: u16 where "AF_PACKET = 17"
definition ARPHRD_ETHER :: u16 where "ARPHRD_ETHER = 1"
definition PACKET_OTHERHOST :: byte where "PACKET_OTHERHOST = 3"

definition frame_min_size :: nat where "frame_min_size = ETH_ZLEN"
definition frame_max_size :: nat where "frame_max_size = ETH_FRAME_LEN"
definition packet_size :: nat where "packet_size = ETH_DATA_LEN"

subsection \<open>Words in memory\<close>

text \<open>
  \<open>le_bytes n w\<close> are the \<open>n\<close> low bytes of \<open>w\<close>, least significant first, and
  \<open>le_word\<close> reads them back. A store through a \<open>uint32_t*\<close> or a \<open>uint16_t\<close>
  field writes the bytes in the order of the process: no conversion is made.
\<close>

primrec le_bytes :: "nat \<Rightarrow> 'a::len word \<Rightarrow> byte list" where
  "le_bytes 0 w = []"
| "le_bytes (Suc n) w = ucast w # le_bytes n (drop_bit 8 w)"

primrec le_word :: "byte list \<Rightarrow> 'a::len word" where
  "le_word [] = 0"
| "le_word (b # bs) = ucast b OR push_bit 8 (le_word bs)"

definition u32_bytes :: "endian \<Rightarrow> u32 \<Rightarrow> byte list" where
  "u32_bytes e w =
     (case e of LittleEndian \<Rightarrow> le_bytes 4 w | BigEndian \<Rightarrow> rev (le_bytes 4 w))"

definition u32_of_bytes :: "endian \<Rightarrow> byte list \<Rightarrow> u32" where
  "u32_of_bytes e bs =
     (case e of LittleEndian \<Rightarrow> le_word bs | BigEndian \<Rightarrow> le_word (rev bs))"

definition u16_bytes :: "endian \<Rightarrow> u16 \<Rightarrow> byte list" where
  "u16_bytes e w =
     (case e of LittleEndian \<Rightarrow> le_bytes 2 w | BigEndian \<Rightarrow> rev (le_bytes 2 w))"

definition u16_of_bytes :: "endian \<Rightarrow> byte list \<Rightarrow> u16" where
  "u16_of_bytes e bs =
     (case e of LittleEndian \<Rightarrow> le_word bs | BigEndian \<Rightarrow> le_word (rev bs))"

text \<open>\<open>htons\<close>: the value whose bytes in memory are in network order.\<close>

definition htons :: "endian \<Rightarrow> u16 \<Rightarrow> u16" where
  "htons e x =
     (case e of BigEndian \<Rightarrow> x | LittleEndian \<Rightarrow> push_bit 8 x OR drop_bit 8 x)"

text \<open>
  The buffer is a list of bytes; \<open>store\<close> overwrites \<open>length bs\<close> bytes from offset
  \<open>off\<close> and \<open>load\<close> reads \<open>n\<close> bytes from there. Every offset the program uses
  is a constant inside the allocation.
\<close>

definition store :: "byte list \<Rightarrow> nat \<Rightarrow> byte list \<Rightarrow> byte list" where
  "store m off bs = take off m @ bs @ drop (off + length bs) m"

definition load :: "byte list \<Rightarrow> nat \<Rightarrow> nat \<Rightarrow> byte list" where
  "load m off n = take n (drop off m)"

definition load_u32 :: "endian \<Rightarrow> byte list \<Rightarrow> nat \<Rightarrow> u32" where
  "load_u32 e m off = u32_of_bytes e (load m off 4)"

definition store_u32 :: "endian \<Rightarrow> byte list \<Rightarrow> nat \<Rightarrow> u32 \<Rightarrow> byte list" where
  "store_u32 e m off w = store m off (u32_bytes e w)"

text \<open>
  Lines 228-232: one allocation of two frames. \<open>frame0\<close> is the outgoing frame,
  \<open>frame1\<close> the incoming one, \<open>payload0\<close> and \<open>payload1\<close> their payload areas.
\<close>

definition frame0 :: nat where "frame0 = 0"
definition frame1 :: nat where "frame1 = frame0 + frame_max_size"
definition payload0 :: nat where "payload0 = frame0 + ETH_HLEN"
definition payload1 :: nat where "payload1 = frame1 + ETH_HLEN"

subsection \<open>The ethernet header and the socket address\<close>

record ethhdr =
  h_dest :: "byte list"
  h_source :: "byte list"
  h_proto :: u16

record sockaddr_ll =
  sll_family :: u16
  sll_protocol :: u16
  sll_ifindex :: int
  sll_hatype :: u16
  sll_pkttype :: byte
  sll_halen :: byte
  sll_addr :: "byte list"

text \<open>
  The header is the first \<open>ETH_HLEN\<close> bytes of the outgoing frame, seen through
  \<open>reinterpret_cast< ethhdr* >(frame0)\<close>: destination, source, protocol.
\<close>

definition ethhdr_of_bytes :: "endian \<Rightarrow> byte list \<Rightarrow> ethhdr" where
  "ethhdr_of_bytes e bs =
     \<lparr>h_dest = load bs 0 ETH_ALEN,
      h_source = load bs ETH_ALEN ETH_ALEN,
      h_proto = u16_of_bytes e (load bs (2 * ETH_ALEN) 2)\<rparr>"

definition bytes_of_ethhdr :: "endian \<Rightarrow> ethhdr \<Rightarrow> byte list" where
  "bytes_of_ethhdr e h = h_dest h @ h_source h @ u16_bytes e (h_proto h)"

subsection \<open>Errors, events and the environment\<close>

datatype ioctl_request = SIOCGIFINDEX | SIOCGIFHWADDR

datatype role = Transmitter | Responder

text \<open>
  Every failure exit of the core, under the name the specification gives it. The
  program itself has no error type: each exit prints one line on the error stream
  (\<open>diagnostic\<close>) and returns \<open>-1\<close>.
\<close>

datatype error =
    AllocError
  | ChannelOpenError
  | AssertionFailure
  | InterfaceLookupError ioctl_request
  | ChannelBindError
  | ShortSendError
  | ShortReceiveError
  | SequenceMismatchError role u32

fun diagnostic :: "error \<Rightarrow> string" where
  "diagnostic AllocError = ''error: cannot allocate buffer''"
| "diagnostic ChannelOpenError = ''error: cannot create socket''"
| "diagnostic AssertionFailure = ''Assertion IFNAMSIZ > iface_namelen failed''"
| "diagnostic (InterfaceLookupError SIOCGIFINDEX) = ''error: cannot obtain iface name (errno %s)''"
| "diagnostic (InterfaceLookupError SIOCGIFHWADDR) = ''error: cannot obtain iface hw addr (errno %s)''"
| "diagnostic ChannelBindError = ''error: cannot bind to iface''"
| "diagnostic ShortSendError = ''error: sendto() failed to send requested byte count''"
| "diagnostic ShortReceiveError = ''error: recvfrom() got unexpected byte count''"
| "diagnostic (SequenceMismatchError Transmitter i) = ''error: bad response package %u''"
| "diagnostic (SequenceMismatchError Responder i) = ''error: bad request package %u''"

text \<open>
  What one \<open>recvfrom\<close> call meets: an error (the call returns \<open>-1\<close> and leaves the
  buffer alone) or a frame on the wire, of which the call copies as many bytes as the
  buffer takes and returns that count.
\<close>

datatype recv_result = RecvError | RecvFrame "byte list"

record timespec =
  tv_sec :: int
  tv_nsec :: int

text \<open>The lines the program prints on the standard output.\<close>

datatype line =
    TransmitterBanner string
  | ResponderBanner string
  | SessionStats real nat real
  | SessionFailed

datatype event =
    EvSocket
  | EvIoctl ioctl_request string
  | EvBind sockaddr_ll
  | EvSendto "byte list" sockaddr_ll
  | EvRecvfrom
  | EvClock
  | EvStdout line
  | EvStderr error

text \<open>
  The answers of the operating system that do not change during a run. \<open>malloc\<close>
  gives the content of the fresh block (its bytes are indeterminate, so they are an
  input) or fails; each ioctl answers for an interface name or fails; \<open>clock\<close> is
  the reading of the raw monotonic clock at each successive call.
\<close>

record env =
  endianness :: endian
  malloc :: "(nat \<Rightarrow> byte) option"
  socket_fd :: int
  ifindex :: "string \<Rightarrow> int option"
  hwaddr :: "string \<Rightarrow> byte list option"
  bind_ret :: int
  clock :: "nat \<Rightarrow> timespec"

text \<open>
  The state of a run: the two-frame buffer, the answers still to come from
  \<open>sendto\<close> and \<open>recvfrom\<close>, the number of clock readings taken, and the trace.
  A call that finds its list of answers empty never returns.
\<close>

record state =
  mem :: "byte list"
  sends :: "int list"
  recvs :: "recv_result list"
  ticks :: nat
  trace :: "event list"

datatype status = Completed | Aborted error | Blocked

text \<open>The values of the locals of \<open>main\<close> once the command line is read.\<close>

record config =
  iface_name :: string
  target :: "byte list"
  packet_count :: u32
  transmitter :: bool

subsection \<open>System calls\<close>

definition emit :: "event \<Rightarrow> state \<Rightarrow> state" where
  "emit ev s = s\<lparr>trace := trace s @ [ev]\<rparr>"

text \<open>
  \<open>sendto(fd, buf, len, 0, saddr, sizeof(saddr))\<close>: the frame handed to the kernel is
  recorded; the return value is the next answer of the environment.
\<close>

definition sendto :: "state \<Rightarrow> nat \<Rightarrow> nat \<Rightarrow> sockaddr_ll \<Rightarrow> int option \<times> state" where
  "sendto s buf len saddr =
     (let s' = emit (EvSendto (load (mem s) buf len) saddr) s
      in case sends s of
           [] \<Rightarrow> (None, s')
         | r # rs \<Rightarrow> (Some r, s'\<lparr>sends := rs\<rparr>))"

text \<open>\<open>recvfrom(fd, buf, len, 0, 0, 0)\<close>.\<close>

definition recvfrom :: "state \<Rightarrow> nat \<Rightarrow> nat \<Rightarrow> int option \<times> state" where
  "recvfrom s buf len =
     (let s' = emit EvRecvfrom s
      in case recvs s of
           [] \<Rightarrow> (None, s')
         | RecvError # rs \<Rightarrow> (Some (- 1), s'\<lparr>recvs := rs\<rparr>)
         | RecvFrame d # rs \<Rightarrow>
             (Some (int (min len (length d))),
              s'\<lparr>recvs := rs, mem := store (mem s) buf (take len d)\<rparr>))"

text \<open>
  Lines 78-84: \<open>t.tv_sec * uint64_t(1e9) + t.tv_nsec\<close>, computed in 64-bit unsigned
  arithmetic.
\<close>

definition nsec :: "timespec \<Rightarrow> u64" where
  "nsec t = word_of_int (tv_sec t) * 1000000000 + word_of_int (tv_nsec t)"

definition timer_nsec :: "env \<Rightarrow> state \<Rightarrow> u64 \<times> state" where
  "timer_nsec en s =
     (let t = clock en (ticks s)
      in (nsec t, emit EvClock (s\<lparr>ticks := Suc (ticks s)\<rparr>)))"

subsection \<open>\<open>init_ethhdr_and_saddr\<close> (lines 88-139)\<close>

text \<open>
  \<open>for (i = 0; i < n; ++i) dst[i] = src[i]\<close>. The loop of line 110 fills two arrays
  from \<open>target\<close> in one body; they are distinct objects, so it is two such copies.
\<close>

definition copy_octets :: "nat \<Rightarrow> byte list \<Rightarrow> byte list \<Rightarrow> byte list" where
  "copy_octets n src dst = fold (\<lambda>i d. d[i := src ! i]) [0..<n] dst"

text \<open>
  The function returns \<open>false\<close> after printing a diagnostic when an ioctl fails;
  \<open>main\<close> then returns at once, so what was already written to the two outputs is
  not observed any more and the failure carries no outputs.
\<close>

definition init_ethhdr_and_saddr ::
  "env \<Rightarrow> string \<Rightarrow> nat \<Rightarrow> byte list \<Rightarrow> ethhdr \<Rightarrow> state
     \<Rightarrow> (error + ethhdr \<times> sockaddr_ll) \<times> state" where
  "init_ethhdr_and_saddr en name namelen tgt ethhead s =
     (if \<not> namelen < IFNAMSIZ
      then (Inl AssertionFailure, emit (EvStderr AssertionFailure) s)
      else
        let proto = ETH_P_IP;
            saddr = \<lparr>sll_family = AF_PACKET,
                     sll_protocol = htons (endianness en) proto,
                     sll_ifindex = 0,
                     sll_hatype = ARPHRD_ETHER,
                     sll_pkttype = PACKET_OTHERHOST,
                     sll_halen = of_nat ETH_ALEN,
                     sll_addr = copy_octets ETH_ALEN tgt (replicate 8 0)\<rparr>;
            ethhead1 = ethhead\<lparr>h_dest := copy_octets ETH_ALEN tgt (h_dest ethhead)\<rparr>;
            ifr_name = take namelen name;
            s1 = emit (EvIoctl SIOCGIFINDEX ifr_name) s
        in case ifindex en ifr_name of
             None \<Rightarrow>
               (Inl (InterfaceLookupError SIOCGIFINDEX),
                emit (EvStderr (InterfaceLookupError SIOCGIFINDEX)) s1)
           | Some idx \<Rightarrow>
               let saddr1 = saddr\<lparr>sll_ifindex := idx\<rparr>;
                   s2 = emit (EvIoctl SIOCGIFHWADDR ifr_name) s1
               in (case hwaddr en ifr_name of
                     None \<Rightarrow>
                       (Inl (InterfaceLookupError SIOCGIFHWADDR),
                        emit (EvStderr (InterfaceLookupError SIOCGIFHWADDR)) s2)
                   | Some sa_data \<Rightarrow>
                       (Inr (ethhead1\<lparr>h_source := copy_octets ETH_ALEN sa_data (h_source ethhead1),
                                      h_proto := htons (endianness en) proto\<rparr>,
                             saddr1),
                        s2)))"

subsection \<open>The two loops of a role\<close>

text \<open>
  Lines 261-272 and 326-336 are the same text: write \<open>(magic, i)\<close> at the start of
  the outgoing payload, send the whole frame, stop on a short count.
\<close>

function send_loop :: "endian \<Rightarrow> sockaddr_ll \<Rightarrow> u32 \<Rightarrow> u32 \<Rightarrow> state \<Rightarrow> status \<times> state" where
  "send_loop e saddr pc i s =
     (if i < pc then
        let s1 = s\<lparr>mem := store_u32 e (mem s) payload0 magic\<rparr>;
            s2 = s1\<lparr>mem := store_u32 e (mem s1) (payload0 + 4) i\<rparr>
        in case sendto s2 frame0 frame_max_size saddr of
             (None, s3) \<Rightarrow> (Blocked, s3)
           | (Some sent, s3) \<Rightarrow>
               if int frame_max_size \<noteq> sent
               then (Aborted ShortSendError, emit (EvStderr ShortSendError) s3)
               else send_loop e saddr pc (i + 1) s3
      else (Completed, s))"
  by pat_completeness auto
termination
proof (relation "measure (\<lambda>(e, saddr, pc, i, s). unat pc - unat i)")
  fix pc i :: u32
  assume "i < pc"
  then have "unat pc - unat (i + 1) < unat pc - unat i"
    by unat_arith
  then show "((e, saddr, pc, i + 1, s3), (e, saddr, pc, i, s))
             \<in> measure (\<lambda>(e, saddr, pc, i, s). unat pc - unat i)"
    for e :: endian and saddr :: sockaddr_ll and s s3 :: state
    by simp
qed simp

text \<open>
  Lines 274-288 and 309-324 differ in the text of the last diagnostic only, which the
  role stands for.
\<close>

function recv_loop :: "role \<Rightarrow> endian \<Rightarrow> u32 \<Rightarrow> u32 \<Rightarrow> state \<Rightarrow> status \<times> state" where
  "recv_loop r e pc i s =
     (if i < pc then
        case recvfrom s frame1 frame_max_size of
          (None, s1) \<Rightarrow> (Blocked, s1)
        | (Some recv, s1) \<Rightarrow>
            if int frame_max_size \<noteq> recv
            then (Aborted ShortReceiveError, emit (EvStderr ShortReceiveError) s1)
            else if load_u32 e (mem s1) payload1 \<noteq> magic \<or>
                    load_u32 e (mem s1) (payload1 + 4) \<noteq> i
            then (Aborted (SequenceMismatchError r i),
                  emit (EvStderr (SequenceMismatchError r i)) s1)
            else recv_loop r e pc (i + 1) s1
      else (Completed, s))"
  by pat_completeness auto
termination
proof (relation "measure (\<lambda>(r, e, pc, i, s). unat pc - unat i)")
  fix pc i :: u32
  assume "i < pc"
  then have "unat pc - unat (i + 1) < unat pc - unat i"
    by unat_arith
  then show "((r, e, pc, i + 1, s1), (r, e, pc, i, s))
             \<in> measure (\<lambda>(r, e, pc, i, s). unat pc - unat i)"
    for r :: role and e :: endian and s s1 :: state
    by simp
qed simp

declare send_loop.simps [simp del]
declare recv_loop.simps [simp del]

subsection \<open>Doubles\<close>

text \<open>
  A conversion of an unsigned integer to \<open>double\<close>, and a product of doubles whose
  values are whole numbers, is the nearest number with a 53-bit significand, ties to
  the even one. \<open>double_of_nat\<close> is that rounding on the naturals.
\<close>

definition double_of_nat :: "nat \<Rightarrow> nat" where
  "double_of_nat n =
     (if n < 2 ^ 53 then n
      else
        let x = floorlog 2 n - 53;
            q = n div 2 ^ x;
            r = n mod 2 ^ x;
            h = 2 ^ (x - 1)
        in (if h < r \<or> (r = h \<and> odd q) then q + 1 else q) * 2 ^ x)"

definition double_mult :: "nat \<Rightarrow> nat \<Rightarrow> nat" where
  "double_mult a b = double_of_nat (a * b)"

subsection \<open>\<open>main\<close> after the command line (lines 219-339)\<close>

text \<open>
  The transmitter, lines 255-304. The byte count is computed in doubles on whole
  numbers, with their rounding. The elapsed seconds and the bandwidth are kept as the
  real numbers \<open>double(dt) * 1e-9\<close> and \<open>transcieved / s\<close>: the rounding of these two
  operations is not modelled.
\<close>

definition transmitter_role :: "env \<Rightarrow> config \<Rightarrow> sockaddr_ll \<Rightarrow> state \<Rightarrow> status \<times> state" where
  "transmitter_role en cfg saddr s =
     (let s0 = emit (EvStdout (TransmitterBanner (iface_name cfg))) s;
          (t0, s1) = timer_nsec en s0
      in case send_loop (endianness en) saddr (packet_count cfg) 0 s1 of
           (Completed, s2) \<Rightarrow>
             (case recv_loop Transmitter (endianness en) (packet_count cfg) 0 s2 of
                (Completed, s3) \<Rightarrow>
                  let (t1, s4) = timer_nsec en s3;
                      dt = t1 - t0
                  in if 0 \<noteq> dt then
                       let transcieved =
                             double_mult
                               (double_mult (double_of_nat packet_size)
                                  (double_of_nat (unat (packet_count cfg))))
                               2;
                           sec = real (double_of_nat (unat dt)) * (1 / 10 ^ 9);
                           bandwidth = real transcieved / sec
                       in (Completed, emit (EvStdout (SessionStats sec transcieved bandwidth)) s4)
                     else (Completed, emit (EvStdout SessionFailed) s4)
              | (st, s3) \<Rightarrow> (st, s3))
         | (st, s2) \<Rightarrow> (st, s2))"

text \<open>The responder, lines 305-337.\<close>

definition responder_role :: "env \<Rightarrow> config \<Rightarrow> sockaddr_ll \<Rightarrow> state \<Rightarrow> status \<times> state" where
  "responder_role en cfg saddr s =
     (let s0 = emit (EvStdout (ResponderBanner (iface_name cfg))) s
      in case recv_loop Responder (endianness en) (packet_count cfg) 0 s0 of
           (Completed, s1) \<Rightarrow> send_loop (endianness en) saddr (packet_count cfg) 0 s1
         | (st, s1) \<Rightarrow> (st, s1))"

text \<open>
  \<open>main\<close> from line 219 on. \<open>snd_script\<close> and \<open>rcv_script\<close> are what the successive
  \<open>sendto\<close> and \<open>recvfrom\<close> calls of the run will meet.
\<close>

definition main :: "env \<Rightarrow> config \<Rightarrow> int list \<Rightarrow> recv_result list \<Rightarrow> status \<times> state" where
  "main en cfg snd_script rcv_script =
     (let s = \<lparr>mem = [], sends = snd_script, recvs = rcv_script, ticks = 0, trace = []\<rparr>
      in case malloc en of
           None \<Rightarrow> (Aborted AllocError, emit (EvStderr AllocError) s)
         | Some junk \<Rightarrow>
             let s1 = s\<lparr>mem := map junk [0..<frame_max_size * 2]\<rparr>;
                 s2 = emit EvSocket s1
             in if socket_fd en < 0
                then (Aborted ChannelOpenError, emit (EvStderr ChannelOpenError) s2)
                else
                  (case init_ethhdr_and_saddr en (iface_name cfg) (length (iface_name cfg))
                          (target cfg)
                          (ethhdr_of_bytes (endianness en) (load (mem s2) frame0 ETH_HLEN)) s2 of
                     (Inl err, s3) \<Rightarrow> (Aborted err, s3)
                   | (Inr (ethhead, saddr), s3) \<Rightarrow>
                       let s4 = s3\<lparr>mem := store (mem s3) frame0
                                             (bytes_of_ethhdr (endianness en) ethhead)\<rparr>;
                           s5 = emit (EvBind saddr) s4
                       in if bind_ret en < 0
                          then (Aborted ChannelBindError, emit (EvStderr ChannelBindError) s5)
                          else if transmitter cfg
                          then transmitter_role en cfg saddr s5
                          else responder_role en cfg saddr s5))"

text \<open>
  What the process ends with: the value \<open>main\<close> returns, or nothing when it never
  returns (a call that blocks for ever, the failed assertion's \<open>abort\<close>).
\<close>

fun main_return :: "status \<Rightarrow> int option" where
  "main_return Completed = Some 0"
| "main_return (Aborted AssertionFailure) = None"
| "main_return (Aborted err) = Some (- 1)"
| "main_return Blocked = None"

subsection \<open>Reading a trace\<close>

text \<open>
  The frames handed to \<open>sendto\<close>, the lines printed, and the sequence of frame
  transfers attempted, each in the order of the run.
\<close>

definition sent_frames :: "event list \<Rightarrow> byte list list" where
  "sent_frames evs = concat (map (\<lambda>ev. case ev of EvSendto f a \<Rightarrow> [f] | _ \<Rightarrow> []) evs)"

definition stdout_lines :: "event list \<Rightarrow> line list" where
  "stdout_lines evs = concat (map (\<lambda>ev. case ev of EvStdout l \<Rightarrow> [l] | _ \<Rightarrow> []) evs)"

datatype io = IoSend | IoRecv

definition io_calls :: "event list \<Rightarrow> io list" where
  "io_calls evs =
     concat (map (\<lambda>ev. case ev of EvSendto f a \<Rightarrow> [IoSend] | EvRecvfrom \<Rightarrow> [IoRecv] | _ \<Rightarrow> []) evs)"

text \<open>The number of \<open>recvfrom\<close> calls and of \<open>sendto\<close> calls of a trace.\<close>

definition recv_calls :: "event list \<Rightarrow> nat" where
  "recv_calls evs = length (filter (\<lambda>c. c = IoRecv) (io_calls evs))"

definition send_calls :: "event list \<Rightarrow> nat" where
  "send_calls evs = length (filter (\<lambda>c. c = IoSend) (io_calls evs))"

text \<open>
  What a \<open>recvfrom\<close> of a whole frame returns for an answer of the environment, and
  the two words at the start of the payload of a frame on the wire.
\<close>

definition recv_count :: "recv_result \<Rightarrow> int" where
  "recv_count r =
     (case r of RecvError \<Rightarrow> - 1 | RecvFrame d \<Rightarrow> int (min frame_max_size (length d)))"

definition payload_words :: "endian \<Rightarrow> byte list \<Rightarrow> u32 \<times> u32" where
  "payload_words e d = (load_u32 e d ETH_HLEN, load_u32 e d (ETH_HLEN + 4))"


subsection \<open>Notions used in the statements and proofs\<close>

text \<open>
  The buffer after the two stores of lines 263-264 with sequence number \<open>x\<close>, and the
  frame then handed to \<open>sendto\<close>: the header and the rest of the payload are those of
  the buffer \<open>m\<close>.
\<close>

definition stamp :: "endian \<Rightarrow> byte list \<Rightarrow> u32 \<Rightarrow> byte list" where
  "stamp e m x = store_u32 e (store_u32 e m payload0 magic) (payload0 + 4) x"

definition frame_of :: "endian \<Rightarrow> byte list \<Rightarrow> u32 \<Rightarrow> byte list" where
  "frame_of e m x =
     take ETH_HLEN m @ u32_bytes e magic @ u32_bytes e x @
     take (frame_max_size - (ETH_HLEN + 8)) (drop (ETH_HLEN + 8) m)"

text \<open>
  An answer to \<open>recvfrom\<close> passes the two checks of lines 277-287 at index \<open>x\<close>: the
  frame fills the buffer and its payload starts with \<open>(magic, x)\<close>.
\<close>

definition accepts :: "endian \<Rightarrow> u32 \<Rightarrow> recv_result \<Rightarrow> bool" where
  "accepts e x r =
     (case r of RecvError \<Rightarrow> False
      | RecvFrame d \<Rightarrow> frame_max_size \<le> length d \<and> payload_words e d = (magic, x))"

text \<open>
  The outcome of a loop as a function of the answers it meets: the status and the
  number of calls made, for \<open>d\<close> iterations to go. The two loops are shown below to
  compute exactly these.
\<close>

fun send_script :: "nat \<Rightarrow> int list \<Rightarrow> status \<times> nat" where
  "send_script 0 ss = (Completed, 0)"
| "send_script (Suc d) [] = (Blocked, 1)"
| "send_script (Suc d) (r # rs) =
     (if r = int frame_max_size
      then (case send_script d rs of (st, n) \<Rightarrow> (st, Suc n))
      else (Aborted ShortSendError, 1))"

fun recv_script :: "role \<Rightarrow> endian \<Rightarrow> nat \<Rightarrow> u32 \<Rightarrow> recv_result list \<Rightarrow> status \<times> nat" where
  "recv_script r e 0 i rs = (Completed, 0)"
| "recv_script r e (Suc d) i [] = (Blocked, 1)"
| "recv_script r e (Suc d) i (rr # rs) =
     (if recv_count rr \<noteq> int frame_max_size then (Aborted ShortReceiveError, 1)
      else if \<not> accepts e i rr then (Aborted (SequenceMismatchError r i), 1)
      else (case recv_script r e d (i + 1) rs of (st, n) \<Rightarrow> (st, Suc n)))"

definition stderr_of :: "status \<Rightarrow> event list" where
  "stderr_of st = (case st of Aborted err \<Rightarrow> [EvStderr err] | _ \<Rightarrow> [])"

definition answered :: "status \<Rightarrow> nat \<Rightarrow> nat" where
  "answered st n = (if st = Blocked then n - 1 else n)"

text \<open>The last line of a transmitter that ran to the end, lines 292-303.\<close>

definition report_line :: "u32 \<Rightarrow> u64 \<Rightarrow> line" where
  "report_line pc dt =
     (if 0 \<noteq> dt then
        SessionStats (real (double_of_nat (unat dt)) * (1 / 10 ^ 9))
          (double_mult (double_mult (double_of_nat packet_size) (double_of_nat (unat pc))) 2)
          (real (double_mult (double_mult (double_of_nat packet_size) (double_of_nat (unat pc))) 2) /
           (real (double_of_nat (unat dt)) * (1 / 10 ^ 9)))
      else SessionFailed)"

definition send_events :: "endian \<Rightarrow> sockaddr_ll \<Rightarrow> byte list \<Rightarrow> nat \<Rightarrow> event list" where
  "send_events e saddr m n = map (\<lambda>k. EvSendto (frame_of e m (of_nat k)) saddr) [0..<n]"

text \<open>Every step before the role succeeds, and the calls these steps make.\<close>

definition setup_ok :: "env \<Rightarrow> config \<Rightarrow> bool" where
  "setup_ok en cfg \<longleftrightarrow>
     malloc en \<noteq> None \<and> 0 \<le> socket_fd en \<and> length (iface_name cfg) < IFNAMSIZ \<and>
     ifindex en (iface_name cfg) \<noteq> None \<and> hwaddr en (iface_name cfg) \<noteq> None \<and>
     0 \<le> bind_ret en"

definition setup_events :: "config \<Rightarrow> sockaddr_ll \<Rightarrow> event list" where
  "setup_events cfg saddr =
     [EvSocket, EvIoctl SIOCGIFINDEX (iface_name cfg), EvIoctl SIOCGIFHWADDR (iface_name cfg),
      EvBind saddr]"

subsection \<open>A sample environment\<close>

text \<open>
  One machine with an interface \<open>eth0\<close>, a peer address, and well-formed frames of
  the protocol under an arbitrary header; the theorems below are instantiated on them.
\<close>

definition sample_env :: "endian \<Rightarrow> env" where
  "sample_env e =
     \<lparr>endianness = e,
      malloc = Some (\<lambda>k. 0),
      socket_fd = 3,
      ifindex = (\<lambda>n. if n = ''eth0'' then Some 2 else None),
      hwaddr = (\<lambda>n. if n = ''eth0''
                     then Some [0x02, 0x00, 0x00, 0x00, 0x00, 0x01, 0, 0, 0, 0, 0, 0, 0, 0]
                     else None),
      bind_ret = 0,
      clock = (\<lambda>k. \<lparr>tv_sec = 5, tv_nsec = 1000 * int k\<rparr>)\<rparr>"

definition sample_cfg :: "string \<Rightarrow> bool \<Rightarrow> u32 \<Rightarrow> config" where
  "sample_cfg name tx n =
     \<lparr>iface_name = name,
      target = [0x02, 0x00, 0x00, 0x00, 0x00, 0x02, 0, 0],
      packet_count = n,
      transmitter = tx\<rparr>"

definition sample_frame :: "endian \<Rightarrow> byte list \<Rightarrow> u32 \<Rightarrow> u32 \<Rightarrow> byte list" where
  "sample_frame e hdr w x = hdr @ u32_bytes e w @ u32_bytes e x @ replicate (packet_size - 8) 0"

section \<open>Properties\<close>

subsection \<open>Memory, byte order and the two loops\<close>

lemma length_store: "off + length bs \<le> length m \<Longrightarrow> length (store m off bs) = length m"
  by (simp add: store_def)

lemma nth_store:
  "off + length bs \<le> length m \<Longrightarrow> j < length m \<Longrightarrow>
   store m off bs ! j = (if off \<le> j \<and> j < off + length bs then bs ! (j - off) else m ! j)"
  by (auto simp: store_def nth_append)

lemma load_store_inside:
  "off \<le> length m \<Longrightarrow> a + n \<le> length bs \<Longrightarrow> load (store m off bs) (off + a) n = load bs a n"
  by (simp add: store_def load_def)

lemma load_store_before:
  "a + n \<le> off \<Longrightarrow> off \<le> length m \<Longrightarrow> load (store m off bs) a n = load m a n"
  by (simp add: store_def load_def take_drop)

lemma load_store_after:
  "off + length bs \<le> a \<Longrightarrow> off + length bs \<le> length m \<Longrightarrow> load (store m off bs) a n = load m a n"
  by (simp add: store_def load_def)

lemma length_load: "off + n \<le> length m \<Longrightarrow> length (load m off n) = n"
  by (simp add: load_def)

lemma length_le_bytes: "length (le_bytes n w) = n"
  by (induction n arbitrary: w) auto

lemma length_u32_bytes: "length (u32_bytes e w) = 4"
  by (simp add: u32_bytes_def length_le_bytes split: endian.split)

lemma length_u16_bytes: "length (u16_bytes e w) = 2"
  by (simp add: u16_bytes_def length_le_bytes split: endian.split)

lemma le_bytes_2: "le_bytes 2 w = [ucast w, ucast (drop_bit 8 w)]"
  by (simp add: numeral_2_eq_2)

lemma le_bytes_4:
  "le_bytes 4 w = [ucast w, ucast (drop_bit 8 w), ucast (drop_bit 16 w), ucast (drop_bit 24 w)]"
proof -
  have "le_bytes (Suc (Suc (Suc (Suc 0)))) w =
        [ucast w, ucast (drop_bit 8 w), ucast (drop_bit 16 w), ucast (drop_bit 24 w)]"
    by (simp add: drop_bit_drop_bit)
  then show ?thesis by (simp add: numeral_eq_Suc)
qed

lemma le_word_4:
  "le_word [a, b, c, d] = ucast a OR push_bit 8 (ucast b OR push_bit 8 (ucast c OR push_bit 8 (ucast d)))"
  by simp

lemma le_word_le_bytes4: "le_word (le_bytes 4 (w::u32)) = w"
  unfolding le_bytes_4 le_word_4
proof (rule bit_word_eqI)
  fix n
  assume n: "n < LENGTH(32)"
  consider "n < 8" | "8 \<le> n" "n < 16" | "16 \<le> n" "n < 24" | "24 \<le> n"
    by linarith
  then
  show "bit (ucast (ucast w :: byte) OR
             push_bit 8 (ucast (ucast (drop_bit 8 w) :: byte) OR
               push_bit 8 (ucast (ucast (drop_bit 16 w) :: byte) OR
                 push_bit 8 (ucast (ucast (drop_bit 24 w) :: byte)))) :: u32) n = bit w n"
    using n by cases (auto simp add: bit_simps)
qed

lemma u32_of_bytes_u32_bytes: "u32_of_bytes e (u32_bytes e w) = w"
  by (simp add: u32_of_bytes_def u32_bytes_def le_word_le_bytes4 split: endian.split)

lemma u32_bytes_magic:
  "u32_bytes e magic = (case e of LittleEndian \<Rightarrow> [0x23, 0x01, 0x10, 0x32] | BigEndian \<Rightarrow> [0x32, 0x10, 0x01, 0x23])"
  by (simp add: u32_bytes_def magic_def le_bytes_4 split: endian.split)

lemma u16_bytes_htons: "u16_bytes e (htons e ETH_P_IP) = [0x08, 0x00]"
  by (simp add: u16_bytes_def htons_def ETH_P_IP_def le_bytes_2 split: endian.split)

lemma copy_octets_eq:
  "n \<le> length src \<Longrightarrow> n \<le> length dst \<Longrightarrow> copy_octets n src dst = take n src @ drop n dst"
proof (induction n)
  case 0
  then show ?case by (simp add: copy_octets_def)
next
  case (Suc n)
  then have "copy_octets (Suc n) src dst = (take n src @ drop n dst)[n := src ! n]"
    by (simp add: copy_octets_def)
  also have "\<dots> = take n src @ (drop n dst)[0 := src ! n]"
    using Suc.prems by (simp add: list_update_append)
  also have "\<dots> = take (Suc n) src @ drop (Suc n) dst"
    using Suc.prems by (simp add: take_Suc_conv_app_nth Cons_nth_drop_Suc [symmetric])
  finally show ?case .
qed

lemma length_copy_octets: "length (copy_octets n src dst) = length dst"
proof -
  have "length (fold (\<lambda>i d. d[i := src ! i]) is dst) = length dst" for "is"
    by (induction "is" arbitrary: dst) auto
  then show ?thesis by (simp add: copy_octets_def)
qed

lemmas geometry =
  frame0_def frame1_def payload0_def payload1_def frame_max_size_def ETH_FRAME_LEN_def
  ETH_HLEN_def

lemma stamp_eq:
  "ETH_HLEN + 8 \<le> length m \<Longrightarrow>
   stamp e m x = take ETH_HLEN m @ u32_bytes e magic @ u32_bytes e x @ drop (ETH_HLEN + 8) m"
  by (simp add: stamp_def store_u32_def store_def length_u32_bytes geometry)

lemma length_stamp: "ETH_HLEN + 8 \<le> length m \<Longrightarrow> length (stamp e m x) = length m"
  by (simp add: stamp_eq length_u32_bytes)

lemma load_stamp:
  "frame_max_size \<le> length m \<Longrightarrow> load (stamp e m x) frame0 frame_max_size = frame_of e m x"
  by (simp add: stamp_eq frame_of_def load_def length_u32_bytes geometry)

lemma frame_of_stamp:
  "ETH_HLEN + 8 \<le> length m \<Longrightarrow> frame_of e (stamp e m x) y = frame_of e m y"
  by (simp add: stamp_eq frame_of_def length_u32_bytes geometry)

lemma stamp_stamp:
  "ETH_HLEN + 8 \<le> length m \<Longrightarrow> stamp e (stamp e m x) y = stamp e m y"
  by (simp add: stamp_eq length_u32_bytes geometry)

lemma send_loop_stop: "\<not> i < pc \<Longrightarrow> send_loop e saddr pc i s = (Completed, s)"
  by (simp add: send_loop.simps)

lemma send_loop_step:
  "i < pc \<Longrightarrow>
   send_loop e saddr pc i s =
     (let m = stamp e (mem s) i;
          tr = trace s @ [EvSendto (load m frame0 frame_max_size) saddr]
      in case sends s of
           [] \<Rightarrow> (Blocked, s\<lparr>mem := m, trace := tr\<rparr>)
         | r # rs \<Rightarrow>
             if r = int frame_max_size
             then send_loop e saddr pc (i + 1) (s\<lparr>mem := m, trace := tr, sends := rs\<rparr>)
             else (Aborted ShortSendError,
                   s\<lparr>mem := m, sends := rs, trace := tr @ [EvStderr ShortSendError]\<rparr>))"
  by (subst send_loop.simps)
     (simp add: Let_def sendto_def emit_def stamp_def split: list.split)

lemma recv_loop_stop: "\<not> i < pc \<Longrightarrow> recv_loop r e pc i s = (Completed, s)"
  by (simp add: recv_loop.simps)

lemma recv_count_full: "recv_count rr = int frame_max_size \<longleftrightarrow> (\<exists>d. rr = RecvFrame d \<and> frame_max_size \<le> length d)"
  by (auto simp: recv_count_def geometry split: recv_result.splits)

lemma payload_after_recv:
  assumes "frame_max_size \<le> length d" "length m = frame_max_size * 2"
  shows "load_u32 e (store m frame1 (take frame_max_size d)) payload1 = load_u32 e d ETH_HLEN"
    and "load_u32 e (store m frame1 (take frame_max_size d)) (payload1 + 4) = load_u32 e d (ETH_HLEN + 4)"
  using assms by (simp_all add: load_u32_def load_def store_def geometry take_drop)

lemma recv_loop_step:
  assumes "i < pc" "length (mem s) = frame_max_size * 2"
  shows "recv_loop r e pc i s =
     (let tr = trace s @ [EvRecvfrom]
      in case recvs s of
           [] \<Rightarrow> (Blocked, s\<lparr>trace := tr\<rparr>)
         | rr # rs \<Rightarrow>
             let m = (case rr of RecvError \<Rightarrow> mem s
                      | RecvFrame d \<Rightarrow> store (mem s) frame1 (take frame_max_size d))
             in if recv_count rr \<noteq> int frame_max_size
                then (Aborted ShortReceiveError,
                      s\<lparr>mem := m, recvs := rs, trace := tr @ [EvStderr ShortReceiveError]\<rparr>)
                else if \<not> accepts e i rr
                then (Aborted (SequenceMismatchError r i),
                      s\<lparr>mem := m, recvs := rs, trace := tr @ [EvStderr (SequenceMismatchError r i)]\<rparr>)
                else recv_loop r e pc (i + 1) (s\<lparr>trace := tr, recvs := rs, mem := m\<rparr>))"
proof (cases "recvs s")
  case Nil
  then show ?thesis using assms
    by (subst recv_loop.simps) (simp add: Let_def recvfrom_def emit_def)
next
  case (Cons rr rs)
  show ?thesis
  proof (cases rr)
    case RecvError
    then show ?thesis using assms Cons
      by (subst recv_loop.simps)
         (simp add: Let_def recvfrom_def emit_def recv_count_def geometry)
  next
    case (RecvFrame d)
    show ?thesis
    proof (cases "frame_max_size \<le> length d")
      case True
      then have "min frame_max_size (length d) = frame_max_size" by simp
      then show ?thesis using assms Cons RecvFrame True
        by (subst recv_loop.simps)
           (simp add: Let_def recvfrom_def emit_def recv_count_def accepts_def payload_words_def
              payload_after_recv)
    next
      case False
      then have "min frame_max_size (length d) = length d" "int (length d) \<noteq> int frame_max_size"
        by simp_all
      then show ?thesis using assms Cons RecvFrame False
        by (subst recv_loop.simps)
           (simp add: Let_def recvfrom_def emit_def recv_count_def)
    qed
  qed
qed

lemma unat_succ: "(i::u32) < pc \<Longrightarrow> unat (i + 1) = Suc (unat i)"
  by unat_arith

lemma upt_Suc_map: "map f [0..<Suc n] = f 0 # map (\<lambda>k. f (Suc k)) [0..<n]"
  by (simp add: upt_conv_Cons map_Suc_upt [symmetric] del: upt_Suc)

lemma send_loop_script:
  assumes "frame_max_size \<le> length (mem s)"
  shows "send_loop e saddr pc i s =
     (case send_script (unat pc - unat i) (sends s) of (st, n) \<Rightarrow>
        (st, s\<lparr>mem := (if n = 0 then mem s else stamp e (mem s) (i + of_nat (n - 1))),
               trace := trace s @ map (\<lambda>k. EvSendto (frame_of e (mem s) (i + of_nat k)) saddr) [0..<n]
                          @ stderr_of st,
               sends := drop (answered st n) (sends s)\<rparr>))"
  using assms
proof (induction "unat pc - unat i" arbitrary: i s)
  case 0
  then have "\<not> i < pc" by (simp add: word_less_nat_alt)
  then show ?case using 0 by (simp add: send_loop_stop stderr_of_def answered_def)
next
  case (Suc d)
  then have lt: "i < pc" by (simp add: word_less_nat_alt)
  have d: "d = unat pc - unat (i + 1)"
    using Suc.hyps(2) unat_succ [OF lt] by simp
  have len: "ETH_HLEN + 8 \<le> length (mem s)"
    using Suc.prems by (simp add: geometry)
  show ?case
  proof (cases "sends s")
    case Nil
    then show ?thesis
      using lt Suc.hyps(2) [symmetric] Suc.prems
      by (simp add: send_loop_step load_stamp stderr_of_def answered_def)
  next
    case (Cons r rs)
    show ?thesis
    proof (cases "r = int frame_max_size")
      case False
      then show ?thesis
        using lt Suc.hyps(2) [symmetric] Suc.prems Cons
        by (simp add: send_loop_step load_stamp stderr_of_def answered_def)
    next
      case True
      let ?s = "s\<lparr>mem := stamp e (mem s) i,
                    trace := trace s @ [EvSendto (frame_of e (mem s) i) saddr],
                    sends := rs\<rparr>"
      have step: "send_loop e saddr pc i s = send_loop e saddr pc (i + 1) ?s"
        using lt Cons True Suc.prems by (simp add: send_loop_step load_stamp)
      have "frame_max_size \<le> length (mem ?s)"
        using Suc.prems len by (simp add: length_stamp)
      from Suc.hyps(1) [OF d this]
      have rec: "send_loop e saddr pc (i + 1) ?s =
        (case send_script d rs of (st, n) \<Rightarrow>
           (st, ?s\<lparr>mem := (if n = 0 then mem ?s else stamp e (mem ?s) (i + 1 + of_nat (n - 1))),
                  trace := trace ?s @ map (\<lambda>k. EvSendto (frame_of e (mem ?s) (i + 1 + of_nat k)) saddr) [0..<n]
                             @ stderr_of st,
                  sends := drop (answered st n) (sends ?s)\<rparr>))"
        using d by simp
      obtain st n where sn: "send_script d rs = (st, n)" by (cases "send_script d rs")
      have n0: "st = Blocked \<Longrightarrow> 0 < n"
        using sn by (induction d rs arbitrary: st n rule: send_script.induct) (auto split: if_splits prod.splits)
      have idx: "i + 1 + of_nat k = i + of_nat (Suc k)" for k
        by simp
      have idx': "i + 1 + (word_of_nat (Suc k) - word_of_nat (Suc 0)) = i + word_of_nat (Suc k)" for k
        by simp
      show ?thesis
        unfolding step rec
        using Cons True Suc.hyps(2) [symmetric] sn len n0
        apply (simp add: frame_of_stamp stamp_stamp upt_Suc_map answered_def del: upt_Suc of_nat_Suc)
        apply (cases n)
         apply (auto simp add: idx idx' simp del: of_nat_Suc)
        done
    qed
  qed
qed

lemma recv_mem:
  assumes "length m = frame_max_size * 2"
  shows "length (case rr of RecvError \<Rightarrow> m | RecvFrame d \<Rightarrow> store m frame1 (take frame_max_size d)) = length m"
    and "take frame_max_size (case rr of RecvError \<Rightarrow> m | RecvFrame d \<Rightarrow> store m frame1 (take frame_max_size d))
         = take frame_max_size m"
  using assms by (simp_all add: store_def geometry split: recv_result.split)

lemma recv_loop_script:
  assumes "length (mem s) = frame_max_size * 2"
  shows "\<exists>m'. length m' = length (mem s) \<and> take frame_max_size m' = take frame_max_size (mem s) \<and>
     recv_loop r e pc i s =
     (case recv_script r e (unat pc - unat i) i (recvs s) of (st, n) \<Rightarrow>
        (st, s\<lparr>trace := trace s @ replicate n EvRecvfrom @ stderr_of st,
               recvs := drop (answered st n) (recvs s),
               mem := m'\<rparr>))"
  using assms
proof (induction "unat pc - unat i" arbitrary: i s)
  case 0
  then have "\<not> i < pc" by (simp add: word_less_nat_alt)
  then show ?case using 0
    by (intro exI [of _ "mem s"]) (simp add: recv_loop_stop stderr_of_def answered_def)
next
  case (Suc d)
  then have lt: "i < pc" by (simp add: word_less_nat_alt)
  have d: "d = unat pc - unat (i + 1)"
    using Suc.hyps(2) unat_succ [OF lt] by simp
  note step = recv_loop_step [OF lt Suc.prems, of r e]
  show ?case
  proof (cases "recvs s")
    case Nil
    then show ?thesis
      using Suc.hyps(2) [symmetric]
      by (intro exI [of _ "mem s"]) (simp add: step stderr_of_def answered_def)
  next
    case (Cons rr rs)
    let ?m = "case rr of RecvError \<Rightarrow> mem s
              | RecvFrame d \<Rightarrow> store (mem s) frame1 (take frame_max_size d)"
    note m = recv_mem [OF Suc.prems, of rr]
    show ?thesis
    proof (cases "recv_count rr = int frame_max_size \<and> accepts e i rr")
      case False
      then show ?thesis
        using Suc.hyps(2) [symmetric] Cons m
        by (intro exI [of _ ?m]) (auto simp add: step stderr_of_def answered_def Let_def)
    next
      case True
      let ?s = "s\<lparr>trace := trace s @ [EvRecvfrom], recvs := rs, mem := ?m\<rparr>"
      have step': "recv_loop r e pc i s = recv_loop r e pc (i + 1) ?s"
        using Cons True by (simp add: step Let_def)
      have "length (mem ?s) = frame_max_size * 2"
        using m Suc.prems by simp
      from Suc.hyps(1) [OF d this]
      obtain m' where m': "length m' = length ?m" "take frame_max_size m' = take frame_max_size ?m"
        and rec: "recv_loop r e pc (i + 1) ?s =
          (case recv_script r e d (i + 1) rs of (st, n) \<Rightarrow>
             (st, ?s\<lparr>trace := trace ?s @ replicate n EvRecvfrom @ stderr_of st,
                    recvs := drop (answered st n) (recvs ?s),
                    mem := m'\<rparr>))"
        using d by auto
      obtain st n where sn: "recv_script r e d (i + 1) rs = (st, n)"
        by (cases "recv_script r e d (i + 1) rs")
      have n0: "st = Blocked \<Longrightarrow> 0 < n"
        using sn
        by (induction r e d "i + 1" rs arbitrary: i st n rule: recv_script.induct)
           (auto split: if_splits prod.splits)
      show ?thesis
        unfolding step' rec
        using Cons True Suc.hyps(2) [symmetric] sn n0 m m'
        by (intro exI [of _ m']) (cases n; auto simp add: answered_def)
    qed
  qed
qed

lemma frame_of_cong:
  assumes "take frame_max_size m = take frame_max_size m'"
  shows "frame_of e m x = frame_of e m' x"
proof -
  have "take ETH_HLEN (take frame_max_size m) = take ETH_HLEN (take frame_max_size m')"
       "drop (ETH_HLEN + 8) (take frame_max_size m) = drop (ETH_HLEN + 8) (take frame_max_size m')"
    using assms by simp_all
  then show ?thesis
    by (simp add: frame_of_def geometry drop_take)
qed

lemma send_loop_fields:
  assumes "frame_max_size \<le> length (mem s)"
    and "send_script (unat pc - unat i) (sends s) = (st, n)"
  shows "fst (send_loop e saddr pc i s) = st"
    and "trace (snd (send_loop e saddr pc i s)) =
           trace s @ map (\<lambda>k. EvSendto (frame_of e (mem s) (i + of_nat k)) saddr) [0..<n] @ stderr_of st"
    and "recvs (snd (send_loop e saddr pc i s)) = recvs s"
    and "ticks (snd (send_loop e saddr pc i s)) = ticks s"
    and "length (mem (snd (send_loop e saddr pc i s))) = length (mem s)"
  using assms by (simp_all add: send_loop_script length_stamp geometry)

lemma recv_loop_fields:
  assumes "length (mem s) = frame_max_size * 2"
    and "recv_script r e (unat pc - unat i) i (recvs s) = (st, n)"
  shows "fst (recv_loop r e pc i s) = st"
    and "trace (snd (recv_loop r e pc i s)) = trace s @ replicate n EvRecvfrom @ stderr_of st"
    and "sends (snd (recv_loop r e pc i s)) = sends s"
    and "ticks (snd (recv_loop r e pc i s)) = ticks s"
    and "length (mem (snd (recv_loop r e pc i s))) = length (mem s)"
    and "take frame_max_size (mem (snd (recv_loop r e pc i s))) = take frame_max_size (mem s)"
  using recv_loop_script [OF assms(1), of r e pc i] assms(2) by auto

lemma transmitter_role_obs:
  assumes len: "length (mem s) = frame_max_size * 2"
    and s1: "send_script (unat (packet_count cfg)) (sends s) = (st1, n1)"
    and s2: "recv_script Transmitter (endianness en) (unat (packet_count cfg)) 0 (recvs s) = (st2, n2)"
  shows "fst (transmitter_role en cfg saddr s) = (if st1 = Completed then st2 else st1)"
    and "trace (snd (transmitter_role en cfg saddr s)) =
           trace s @ [EvStdout (TransmitterBanner (iface_name cfg)), EvClock] @
           send_events (endianness en) saddr (mem s) n1 @
           (if st1 = Completed
            then replicate n2 EvRecvfrom @
                 (if st2 = Completed
                  then [EvClock,
                        EvStdout (report_line (packet_count cfg)
                                    (nsec (clock en (Suc (ticks s))) - nsec (clock en (ticks s))))]
                  else stderr_of st2)
            else stderr_of st1)"
proof -
  let ?e = "endianness en" and ?pc = "packet_count cfg"
  define a where "a = snd (timer_nsec en (emit (EvStdout (TransmitterBanner (iface_name cfg))) s))"
  have tn: "timer_nsec en (emit (EvStdout (TransmitterBanner (iface_name cfg))) s)
            = (nsec (clock en (ticks s)), a)"
    by (simp add: a_def timer_nsec_def emit_def Let_def)
  have a: "mem a = mem s" "sends a = sends s" "recvs a = recvs s" "ticks a = Suc (ticks s)"
    "trace a = trace s @ [EvStdout (TransmitterBanner (iface_name cfg)), EvClock]"
    by (simp_all add: a_def timer_nsec_def emit_def Let_def)
  define b where "b = snd (send_loop ?e saddr ?pc 0 a)"
  have "frame_max_size \<le> length (mem a)" using len a by simp
  note sf = send_loop_fields [OF this, of ?pc 0 st1 n1 ?e saddr]
  have sl: "send_loop ?e saddr ?pc 0 a = (st1, b)"
    using sf(1) s1 a by (simp add: b_def prod_eq_iff)
  have b: "trace b = trace a @ send_events ?e saddr (mem s) n1 @ stderr_of st1"
    "recvs b = recvs s" "ticks b = Suc (ticks s)" "length (mem b) = frame_max_size * 2"
    using sf(2-5) s1 a len by (simp_all add: b_def send_events_def)
  define c where "c = snd (recv_loop Transmitter ?e ?pc 0 b)"
  note rf = recv_loop_fields [OF b(4), of Transmitter ?e ?pc 0 st2 n2]
  have rl: "recv_loop Transmitter ?e ?pc 0 b = (st2, c)"
    using rf(1) s2 b by (simp add: c_def prod_eq_iff)
  have c: "trace c = trace b @ replicate n2 EvRecvfrom @ stderr_of st2" "ticks c = Suc (ticks s)"
    using rf(2,4) s2 b by (simp_all add: c_def)
  have tn2: "timer_nsec en c = (nsec (clock en (Suc (ticks s))), emit EvClock (c\<lparr>ticks := Suc (Suc (ticks s))\<rparr>))"
    by (simp add: timer_nsec_def Let_def c)
  have unfold: "transmitter_role en cfg saddr s =
      (if st1 = Completed then
         if st2 = Completed then
           (Completed,
            emit (EvStdout (report_line ?pc (nsec (clock en (Suc (ticks s))) - nsec (clock en (ticks s)))))
              (emit EvClock (c\<lparr>ticks := Suc (Suc (ticks s))\<rparr>)))
         else (st2, c)
       else (st1, b))"
    unfolding transmitter_role_def Let_def tn prod.case sl
    by (cases st1; cases st2) (simp_all add: rl tn2 report_line_def Let_def)
  show "fst (transmitter_role en cfg saddr s) = (if st1 = Completed then st2 else st1)"
    by (simp add: unfold)
  show "trace (snd (transmitter_role en cfg saddr s)) =
           trace s @ [EvStdout (TransmitterBanner (iface_name cfg)), EvClock] @
           send_events (endianness en) saddr (mem s) n1 @
           (if st1 = Completed
            then replicate n2 EvRecvfrom @
                 (if st2 = Completed
                  then [EvClock,
                        EvStdout (report_line (packet_count cfg)
                                    (nsec (clock en (Suc (ticks s))) - nsec (clock en (ticks s))))]
                  else stderr_of st2)
            else stderr_of st1)"
    by (simp add: unfold a b c emit_def stderr_of_def)
qed

lemma responder_role_obs:
  assumes len: "length (mem s) = frame_max_size * 2"
    and s1: "recv_script Responder (endianness en) (unat (packet_count cfg)) 0 (recvs s) = (st1, n1)"
    and s2: "send_script (unat (packet_count cfg)) (sends s) = (st2, n2)"
  shows "fst (responder_role en cfg saddr s) = (if st1 = Completed then st2 else st1)"
    and "trace (snd (responder_role en cfg saddr s)) =
           trace s @ [EvStdout (ResponderBanner (iface_name cfg))] @
           replicate n1 EvRecvfrom @
           (if st1 = Completed
            then send_events (endianness en) saddr (mem s) n2 @ stderr_of st2
            else stderr_of st1)"
proof -
  let ?e = "endianness en" and ?pc = "packet_count cfg"
  define a where "a = emit (EvStdout (ResponderBanner (iface_name cfg))) s"
  have a: "mem a = mem s" "sends a = sends s" "recvs a = recvs s"
    "trace a = trace s @ [EvStdout (ResponderBanner (iface_name cfg))]"
    by (simp_all add: a_def emit_def)
  define b where "b = snd (recv_loop Responder ?e ?pc 0 a)"
  have la: "length (mem a) = frame_max_size * 2" using len a by simp
  note rf = recv_loop_fields [OF la, of Responder ?e ?pc 0 st1 n1]
  have rl: "recv_loop Responder ?e ?pc 0 a = (st1, b)"
    using rf(1) s1 a by (simp add: b_def prod_eq_iff)
  have b: "trace b = trace a @ replicate n1 EvRecvfrom @ stderr_of st1"
    "sends b = sends s" "length (mem b) = frame_max_size * 2"
    "take frame_max_size (mem b) = take frame_max_size (mem s)"
    using rf(2,3,5,6) s1 a len by (simp_all add: b_def)
  have "frame_max_size \<le> length (mem b)" using b by simp
  note sf = send_loop_fields [OF this, of ?pc 0 st2 n2 ?e saddr]
  have fo: "frame_of ?e (mem b) x = frame_of ?e (mem s) x" for x
    by (rule frame_of_cong) (rule b)
  have unfold: "responder_role en cfg saddr s =
      (if st1 = Completed then send_loop ?e saddr ?pc 0 b else (st1, b))"
    unfolding responder_role_def Let_def a_def [symmetric] rl
    by (cases st1) simp_all
  show "fst (responder_role en cfg saddr s) = (if st1 = Completed then st2 else st1)"
    using sf(1) s2 b by (simp add: unfold)
  show "trace (snd (responder_role en cfg saddr s)) =
           trace s @ [EvStdout (ResponderBanner (iface_name cfg))] @
           replicate n1 EvRecvfrom @
           (if st1 = Completed
            then send_events (endianness en) saddr (mem s) n2 @ stderr_of st2
            else stderr_of st1)"
    using sf(2) s2 b a by (simp add: unfold fo send_events_def stderr_of_def)
qed

lemma length_bytes_of_ethhdr:
  "length (h_dest h) = ETH_ALEN \<Longrightarrow> length (h_source h) = ETH_ALEN \<Longrightarrow>
   length (bytes_of_ethhdr e h) = ETH_HLEN"
  by (simp add: bytes_of_ethhdr_def length_u16_bytes ETH_ALEN_def ETH_HLEN_def)

lemma init_ok:
  assumes "namelen < IFNAMSIZ" "ifindex en (take namelen name) = Some idx"
    "hwaddr en (take namelen name) = Some sa"
  shows "init_ethhdr_and_saddr en name namelen tgt h s =
    (Inr (h\<lparr>h_dest := copy_octets ETH_ALEN tgt (h_dest h),
             h_source := copy_octets ETH_ALEN sa (h_source h),
             h_proto := htons (endianness en) ETH_P_IP\<rparr>,
          \<lparr>sll_family = AF_PACKET, sll_protocol = htons (endianness en) ETH_P_IP,
             sll_ifindex = idx, sll_hatype = ARPHRD_ETHER, sll_pkttype = PACKET_OTHERHOST,
             sll_halen = of_nat ETH_ALEN, sll_addr = copy_octets ETH_ALEN tgt (replicate 8 0)\<rparr>),
     s\<lparr>trace := trace s @ [EvIoctl SIOCGIFINDEX (take namelen name),
                            EvIoctl SIOCGIFHWADDR (take namelen name)]\<rparr>)"
  using assms by (simp add: init_ethhdr_and_saddr_def Let_def emit_def)

lemma main_ok:
  assumes "setup_ok en cfg"
  shows "\<exists>m saddr. length m = frame_max_size * 2 \<and>
     (\<forall>ss rs. main en cfg ss rs =
        (if transmitter cfg then transmitter_role en cfg saddr else responder_role en cfg saddr)
          \<lparr>mem = m, sends = ss, recvs = rs, ticks = 0, trace = setup_events cfg saddr\<rparr>)"
proof -
  from assms obtain junk idx sa where ok: "malloc en = Some junk" "\<not> socket_fd en < 0"
    "length (iface_name cfg) < IFNAMSIZ" "ifindex en (iface_name cfg) = Some idx"
    "hwaddr en (iface_name cfg) = Some sa" "\<not> bind_ret en < 0"
    by (auto simp: setup_ok_def)
  let ?e = "endianness en"
  let ?m0 = "map junk [0..<frame_max_size * 2]"
  let ?h0 = "ethhdr_of_bytes ?e (load ?m0 frame0 ETH_HLEN)"
  let ?h = "?h0\<lparr>h_dest := copy_octets ETH_ALEN (target cfg) (h_dest ?h0),
                 h_source := copy_octets ETH_ALEN sa (h_source ?h0),
                 h_proto := htons ?e ETH_P_IP\<rparr>"
  let ?saddr = "\<lparr>sll_family = AF_PACKET, sll_protocol = htons ?e ETH_P_IP,
             sll_ifindex = idx, sll_hatype = ARPHRD_ETHER, sll_pkttype = PACKET_OTHERHOST,
             sll_halen = of_nat ETH_ALEN, sll_addr = copy_octets ETH_ALEN (target cfg) (replicate 8 0)\<rparr>"
  let ?m = "store ?m0 frame0 (bytes_of_ethhdr ?e ?h)"
  have "length (bytes_of_ethhdr ?e ?h) = ETH_HLEN"
    by (rule length_bytes_of_ethhdr)
       (simp_all add: length_copy_octets ethhdr_of_bytes_def load_def geometry ETH_ALEN_def)
  then have len: "length ?m = frame_max_size * 2"
    by (simp add: store_def geometry)
  have "main en cfg ss rs =
        (if transmitter cfg then transmitter_role en cfg ?saddr else responder_role en cfg ?saddr)
          \<lparr>mem = ?m, sends = ss, recvs = rs, ticks = 0, trace = setup_events cfg ?saddr\<rparr>" for ss rs
    using ok
    by (simp add: main_def Let_def emit_def init_ok setup_events_def)
  with len show ?thesis by blast
qed

lemma main_fail:
  assumes "\<not> setup_ok en cfg" "main en cfg ss rs = (st, s')"
  shows "(malloc en = None \<and> st = Aborted AllocError \<and> trace s' = [EvStderr AllocError])
       \<or> (socket_fd en < 0 \<and> st = Aborted ChannelOpenError \<and>
            trace s' = [EvSocket, EvStderr ChannelOpenError])
       \<or> (\<not> length (iface_name cfg) < IFNAMSIZ \<and> st = Aborted AssertionFailure \<and>
            trace s' = [EvSocket, EvStderr AssertionFailure])
       \<or> (ifindex en (iface_name cfg) = None \<and> st = Aborted (InterfaceLookupError SIOCGIFINDEX) \<and>
            trace s' = [EvSocket, EvIoctl SIOCGIFINDEX (iface_name cfg),
                        EvStderr (InterfaceLookupError SIOCGIFINDEX)])
       \<or> (ifindex en (iface_name cfg) \<noteq> None \<and> hwaddr en (iface_name cfg) = None \<and>
            st = Aborted (InterfaceLookupError SIOCGIFHWADDR) \<and>
            trace s' = [EvSocket, EvIoctl SIOCGIFINDEX (iface_name cfg),
                        EvIoctl SIOCGIFHWADDR (iface_name cfg),
                        EvStderr (InterfaceLookupError SIOCGIFHWADDR)])
       \<or> (ifindex en (iface_name cfg) \<noteq> None \<and> hwaddr en (iface_name cfg) \<noteq> None \<and>
            bind_ret en < 0 \<and> st = Aborted ChannelBindError \<and>
            (\<exists>saddr. trace s' = setup_events cfg saddr @ [EvStderr ChannelBindError]))"
proof (cases "malloc en")
  case None
  then show ?thesis using assms(2) by (auto simp: main_def Let_def emit_def)
next
  case (Some junk)
  show ?thesis
  proof (cases "socket_fd en < 0")
    case True
    then show ?thesis using assms(2) Some by (auto simp: main_def Let_def emit_def)
  next
    case sock: False
    show ?thesis
    proof (cases "length (iface_name cfg) < IFNAMSIZ")
      case False
      then show ?thesis using assms(2) Some sock
        by (auto simp: main_def Let_def emit_def init_ethhdr_and_saddr_def)
    next
      case name: True
      show ?thesis
      proof (cases "ifindex en (iface_name cfg)")
        case None
        then show ?thesis using assms(2) Some sock name
          by (auto simp: main_def Let_def emit_def init_ethhdr_and_saddr_def)
      next
        case idx: (Some idx)
        show ?thesis
        proof (cases "hwaddr en (iface_name cfg)")
          case None
          then show ?thesis using assms(2) Some sock name idx
            by (auto simp: main_def Let_def emit_def init_ethhdr_and_saddr_def)
        next
          case hw: (Some sa)
          then have "bind_ret en < 0"
            using assms(1) Some sock name idx by (auto simp: setup_ok_def)
          then show ?thesis using assms(2) Some sock name idx hw
            by (auto simp: main_def Let_def emit_def init_ok setup_events_def)
        qed
      qed
    qed
  qed
qed

lemma main_shape [consumes 1, case_names fail tx rx]:
  assumes "main en cfg ss rs = (st, s')"
  obtains
    (fail) err tr where "\<not> setup_ok en cfg" "st = Aborted err" "trace s' = tr @ [EvStderr err]"
      "io_calls tr = []" "stdout_lines tr = []" "EvClock \<notin> set tr"
  | (tx) m saddr st1 n1 st2 n2 where "setup_ok en cfg" "transmitter cfg"
      "length m = frame_max_size * 2"
      "send_script (unat (packet_count cfg)) ss = (st1, n1)"
      "recv_script Transmitter (endianness en) (unat (packet_count cfg)) 0 rs = (st2, n2)"
      "st = (if st1 = Completed then st2 else st1)"
      "trace s' = setup_events cfg saddr @
           [EvStdout (TransmitterBanner (iface_name cfg)), EvClock] @
           send_events (endianness en) saddr m n1 @
           (if st1 = Completed
            then replicate n2 EvRecvfrom @
                 (if st2 = Completed
                  then [EvClock,
                        EvStdout (report_line (packet_count cfg)
                                    (nsec (clock en (Suc 0)) - nsec (clock en 0)))]
                  else stderr_of st2)
            else stderr_of st1)"
  | (rx) m saddr st1 n1 st2 n2 where "setup_ok en cfg" "\<not> transmitter cfg"
      "length m = frame_max_size * 2"
      "recv_script Responder (endianness en) (unat (packet_count cfg)) 0 rs = (st1, n1)"
      "send_script (unat (packet_count cfg)) ss = (st2, n2)"
      "st = (if st1 = Completed then st2 else st1)"
      "trace s' = setup_events cfg saddr @
           [EvStdout (ResponderBanner (iface_name cfg))] @
           replicate n1 EvRecvfrom @
           (if st1 = Completed
            then send_events (endianness en) saddr m n2 @ stderr_of st2
            else stderr_of st1)"
proof (cases "setup_ok en cfg")
  case False
  have "\<exists>err tr. st = Aborted err \<and> trace s' = tr @ [EvStderr err] \<and> io_calls tr = [] \<and>
          stdout_lines tr = [] \<and> EvClock \<notin> set tr"
    using main_fail [OF False assms]
  proof (elim disjE conjE exE)
    fix saddr
    assume "st = Aborted ChannelBindError"
      "trace s' = setup_events cfg saddr @ [EvStderr ChannelBindError]"
    then show ?thesis
      by (intro exI [of _ ChannelBindError] exI [of _ "setup_events cfg saddr"])
         (simp add: io_calls_def stdout_lines_def setup_events_def)
  next
    assume "st = Aborted AllocError" "trace s' = [EvStderr AllocError]"
    then show ?thesis
      by (intro exI [of _ AllocError] exI [of _ "[]"])
         (simp add: io_calls_def stdout_lines_def)
  next
    assume "st = Aborted ChannelOpenError" "trace s' = [EvSocket, EvStderr ChannelOpenError]"
    then show ?thesis
      by (intro exI [of _ ChannelOpenError] exI [of _ "[EvSocket]"])
         (simp add: io_calls_def stdout_lines_def)
  next
    assume "st = Aborted AssertionFailure" "trace s' = [EvSocket, EvStderr AssertionFailure]"
    then show ?thesis
      by (intro exI [of _ AssertionFailure] exI [of _ "[EvSocket]"])
         (simp add: io_calls_def stdout_lines_def)
  next
    assume "st = Aborted (InterfaceLookupError SIOCGIFINDEX)"
      "trace s' = [EvSocket, EvIoctl SIOCGIFINDEX (iface_name cfg),
                   EvStderr (InterfaceLookupError SIOCGIFINDEX)]"
    then show ?thesis
      by (intro exI [of _ "InterfaceLookupError SIOCGIFINDEX"]
            exI [of _ "[EvSocket, EvIoctl SIOCGIFINDEX (iface_name cfg)]"])
         (simp add: io_calls_def stdout_lines_def)
  next
    assume "st = Aborted (InterfaceLookupError SIOCGIFHWADDR)"
      "trace s' = [EvSocket, EvIoctl SIOCGIFINDEX (iface_name cfg),
                   EvIoctl SIOCGIFHWADDR (iface_name cfg),
                   EvStderr (InterfaceLookupError SIOCGIFHWADDR)]"
    then show ?thesis
      by (intro exI [of _ "InterfaceLookupError SIOCGIFHWADDR"]
            exI [of _ "[EvSocket, EvIoctl SIOCGIFINDEX (iface_name cfg),
                        EvIoctl SIOCGIFHWADDR (iface_name cfg)]"])
         (simp add: io_calls_def stdout_lines_def)
  qed
  then show ?thesis using fail [OF False] by blast
next
  case True
  from main_ok [OF True] obtain m saddr where len: "length m = frame_max_size * 2"
    and run: "\<And>ss rs. main en cfg ss rs =
        (if transmitter cfg then transmitter_role en cfg saddr else responder_role en cfg saddr)
          \<lparr>mem = m, sends = ss, recvs = rs, ticks = 0, trace = setup_events cfg saddr\<rparr>"
    by blast
  let ?s = "\<lparr>mem = m, sends = ss, recvs = rs, ticks = 0, trace = setup_events cfg saddr\<rparr>"
  have ls: "length (mem ?s) = frame_max_size * 2" using len by simp
  obtain a b where ab: "send_script (unat (packet_count cfg)) ss = (a, b)"
    by (cases "send_script (unat (packet_count cfg)) ss")
  show ?thesis
  proof (cases "transmitter cfg")
    case tr: True
    obtain c d where cd: "recv_script Transmitter (endianness en) (unat (packet_count cfg)) 0 rs = (c, d)"
      by (cases "recv_script Transmitter (endianness en) (unat (packet_count cfg)) 0 rs")
    from transmitter_role_obs [OF ls, of cfg a b en c d saddr] ab cd
    have "st = (if a = Completed then c else a)"
      and "trace s' = setup_events cfg saddr @
           [EvStdout (TransmitterBanner (iface_name cfg)), EvClock] @
           send_events (endianness en) saddr m b @
           (if a = Completed
            then replicate d EvRecvfrom @
                 (if c = Completed
                  then [EvClock,
                        EvStdout (report_line (packet_count cfg)
                                    (nsec (clock en (Suc 0)) - nsec (clock en 0)))]
                  else stderr_of c)
            else stderr_of a)"
      using assms run [of ss rs] tr by (simp_all add: prod_eq_iff)
    then show ?thesis
      by (rule tx [OF True tr len ab cd])
  next
    case rsp: False
    obtain c d where cd: "recv_script Responder (endianness en) (unat (packet_count cfg)) 0 rs = (c, d)"
      by (cases "recv_script Responder (endianness en) (unat (packet_count cfg)) 0 rs")
    from responder_role_obs [OF ls, of en cfg c d a b saddr] ab cd
    have "st = (if c = Completed then a else c)"
      and "trace s' = setup_events cfg saddr @
           [EvStdout (ResponderBanner (iface_name cfg))] @
           replicate d EvRecvfrom @
           (if c = Completed
            then send_events (endianness en) saddr m b @ stderr_of a
            else stderr_of c)"
      using assms run [of ss rs] rsp by (simp_all add: prod_eq_iff)
    then show ?thesis
      by (rule rx [OF True rsp len cd ab])
  qed
qed

lemma io_calls_append: "io_calls (xs @ ys) = io_calls xs @ io_calls ys"
  by (simp add: io_calls_def)

lemma io_calls_Cons:
  "io_calls (ev # evs) =
     (case ev of EvSendto f a \<Rightarrow> [IoSend] | EvRecvfrom \<Rightarrow> [IoRecv] | _ \<Rightarrow> []) @ io_calls evs"
  by (simp add: io_calls_def)

lemma io_calls_Nil: "io_calls [] = []"
  by (simp add: io_calls_def)

lemma io_calls_setup: "io_calls (setup_events cfg saddr) = []"
  by (simp add: io_calls_def setup_events_def)

lemma io_calls_send_events: "io_calls (send_events e saddr m n) = replicate n IoSend"
  by (induction n) (simp_all add: send_events_def io_calls_def replicate_append_same)

lemma io_calls_recvs: "io_calls (replicate n EvRecvfrom) = replicate n IoRecv"
  by (induction n) (simp_all add: io_calls_def)

lemma io_calls_stderr: "io_calls (stderr_of st) = []"
  by (cases st) (simp_all add: io_calls_def stderr_of_def)

lemmas io_calls_simps =
  io_calls_append io_calls_Cons io_calls_Nil io_calls_setup io_calls_send_events
  io_calls_recvs io_calls_stderr

lemma sent_frames_append: "sent_frames (xs @ ys) = sent_frames xs @ sent_frames ys"
  by (simp add: sent_frames_def)

lemma sent_frames_Cons:
  "sent_frames (ev # evs) = (case ev of EvSendto f a \<Rightarrow> [f] | _ \<Rightarrow> []) @ sent_frames evs"
  by (simp add: sent_frames_def)

lemma sent_frames_Nil: "sent_frames [] = []"
  by (simp add: sent_frames_def)

lemma sent_frames_setup: "sent_frames (setup_events cfg saddr) = []"
  by (simp add: sent_frames_def setup_events_def)

lemma sent_frames_send_events:
  "sent_frames (send_events e saddr m n) = map (\<lambda>k. frame_of e m (of_nat k)) [0..<n]"
  by (induction n) (simp_all add: send_events_def sent_frames_def)

lemma sent_frames_recvs: "sent_frames (replicate n EvRecvfrom) = []"
  by (induction n) (simp_all add: sent_frames_def)

lemma sent_frames_stderr: "sent_frames (stderr_of st) = []"
  by (cases st) (simp_all add: sent_frames_def stderr_of_def)

lemmas sent_frames_simps =
  sent_frames_append sent_frames_Cons sent_frames_Nil sent_frames_setup sent_frames_send_events
  sent_frames_recvs sent_frames_stderr

lemma stdout_lines_append: "stdout_lines (xs @ ys) = stdout_lines xs @ stdout_lines ys"
  by (simp add: stdout_lines_def)

lemma stdout_lines_Cons:
  "stdout_lines (ev # evs) = (case ev of EvStdout l \<Rightarrow> [l] | _ \<Rightarrow> []) @ stdout_lines evs"
  by (simp add: stdout_lines_def)

lemma stdout_lines_Nil: "stdout_lines [] = []"
  by (simp add: stdout_lines_def)

lemma stdout_lines_setup: "stdout_lines (setup_events cfg saddr) = []"
  by (simp add: stdout_lines_def setup_events_def)

lemma stdout_lines_send_events: "stdout_lines (send_events e saddr m n) = []"
  by (induction n) (simp_all add: send_events_def stdout_lines_def)

lemma stdout_lines_recvs: "stdout_lines (replicate n EvRecvfrom) = []"
  by (induction n) (simp_all add: stdout_lines_def)

lemma stdout_lines_stderr: "stdout_lines (stderr_of st) = []"
  by (cases st) (simp_all add: stdout_lines_def stderr_of_def)

lemmas stdout_lines_simps =
  stdout_lines_append stdout_lines_Cons stdout_lines_Nil stdout_lines_setup
  stdout_lines_send_events stdout_lines_recvs stdout_lines_stderr

lemma send_script_le: "send_script d ss = (st, n) \<Longrightarrow> n \<le> d"
  by (induction d ss arbitrary: st n rule: send_script.induct)
     (auto split: if_splits prod.splits)

lemma send_script_Completed: "send_script d ss = (Completed, n) \<Longrightarrow> n = d"
  by (induction d ss arbitrary: n rule: send_script.induct)
     (auto split: if_splits prod.splits)

lemma send_script_status:
  "send_script d ss = (st, n) \<Longrightarrow> st = Completed \<or> st = Blocked \<or> st = Aborted ShortSendError"
  by (induction d ss arbitrary: st n rule: send_script.induct)
     (auto split: if_splits prod.splits)

lemma send_script_Aborted: "send_script d ss = (Aborted err, n) \<Longrightarrow> err = ShortSendError \<and> 0 < n"
  by (induction d ss arbitrary: n rule: send_script.induct)
     (auto split: if_splits prod.splits)

lemma send_script_short:
  "send_script d ss = (st, n) \<Longrightarrow> j < n \<Longrightarrow> j < length ss \<Longrightarrow> ss ! j \<noteq> int frame_max_size \<Longrightarrow>
   st = Aborted ShortSendError \<and> n = Suc j"
proof (induction d ss arbitrary: st n j rule: send_script.induct)
  case (3 d r rs)
  show ?case
  proof (cases "r = int frame_max_size")
    case False
    with 3 show ?thesis by auto
  next
    case True
    obtain st' n' where sn: "send_script d rs = (st', n')" by (cases "send_script d rs")
    with True "3.prems" have eq: "st = st'" "n = Suc n'" by auto
    from True "3.prems"(4) obtain j' where j: "j = Suc j'" by (cases j) auto
    from "3.IH" [OF True sn, of j'] "3.prems" j eq show ?thesis by auto
  qed
qed auto

lemma recv_script_le: "recv_script r e d i rs = (st, n) \<Longrightarrow> n \<le> d"
  by (induction r e d i rs arbitrary: st n rule: recv_script.induct)
     (auto split: if_splits prod.splits)

lemma recv_script_Completed: "recv_script r e d i rs = (Completed, n) \<Longrightarrow> n = d"
  by (induction r e d i rs arbitrary: n rule: recv_script.induct)
     (auto split: if_splits prod.splits)

lemma recv_script_Aborted: "recv_script r e d i rs = (Aborted err, n) \<Longrightarrow> 0 < n"
  by (induction r e d i rs arbitrary: n rule: recv_script.induct)
     (auto split: if_splits prod.splits)

lemma recv_script_short:
  "recv_script r e d i rs = (st, n) \<Longrightarrow> j < n \<Longrightarrow> j < length rs \<Longrightarrow>
   recv_count (rs ! j) \<noteq> int frame_max_size \<Longrightarrow>
   st = Aborted ShortReceiveError \<and> n = Suc j"
proof (induction r e d i rs arbitrary: st n j rule: recv_script.induct)
  case (3 r e d i rr rs)
  show ?case
  proof (cases "recv_count rr = int frame_max_size \<and> accepts e i rr")
    case False
    with 3 show ?thesis by (cases j) (auto split: if_splits)
  next
    case True
    obtain st' n' where sn: "recv_script r e d (i + 1) rs = (st', n')"
      by (cases "recv_script r e d (i + 1) rs")
    with True "3.prems" have eq: "st = st'" "n = Suc n'" by auto
    from True "3.prems"(4) obtain j' where j: "j = Suc j'" by (cases j) auto
    from "3.IH" [OF _ _ sn, of j'] True "3.prems" j eq show ?thesis by auto
  qed
qed auto

lemma recv_script_mismatch:
  "recv_script r e d i rs = (st, n) \<Longrightarrow> j < n \<Longrightarrow> j < length rs \<Longrightarrow>
   recv_count (rs ! j) = int frame_max_size \<Longrightarrow> \<not> accepts e (i + of_nat j) (rs ! j) \<Longrightarrow>
   st = Aborted (SequenceMismatchError r (i + of_nat j)) \<and> n = Suc j"
proof (induction r e d i rs arbitrary: st n j rule: recv_script.induct)
  case (3 r e d i rr rs)
  show ?case
  proof (cases "recv_count rr = int frame_max_size \<and> accepts e i rr")
    case False
    with 3 show ?thesis by (cases j) (auto split: if_splits)
  next
    case True
    obtain st' n' where sn: "recv_script r e d (i + 1) rs = (st', n')"
      by (cases "recv_script r e d (i + 1) rs")
    with True "3.prems" have eq: "st = st'" "n = Suc n'" by auto
    from True "3.prems"(5) obtain j' where j: "j = Suc j'" by (cases j) auto
    have "i + 1 + of_nat j' = i + of_nat j" using j by simp
    with "3.IH" [OF _ _ sn, of j'] True "3.prems" j eq show ?thesis by auto
  qed
qed auto

lemma recv_script_accepted:
  "recv_script r e d i rs = (st, n) \<Longrightarrow> Suc j < n \<or> (st = Completed \<and> j < n) \<Longrightarrow>
   j < length rs \<and> accepts e (i + of_nat j) (rs ! j)"
proof (induction r e d i rs arbitrary: st n j rule: recv_script.induct)
  case (3 r e d i rr rs)
  show ?case
  proof (cases "recv_count rr = int frame_max_size \<and> accepts e i rr")
    case False
    with 3 show ?thesis by (auto split: if_splits)
  next
    case True
    obtain st' n' where sn: "recv_script r e d (i + 1) rs = (st', n')"
      by (cases "recv_script r e d (i + 1) rs")
    with True "3.prems" have eq: "st = st'" "n = Suc n'" by auto
    show ?thesis
    proof (cases j)
      case 0
      with True show ?thesis by simp
    next
      case (Suc j')
      have "i + 1 + of_nat j' = i + of_nat j" using Suc by simp
      with "3.IH" [OF _ _ sn, of j'] True "3.prems" Suc eq show ?thesis by auto
    qed
  qed
qed auto

subsection \<open>Counting the calls of a run\<close>

lemma send_events_Suc:
  "send_events e saddr m (Suc n) = send_events e saddr m n @ [EvSendto (frame_of e m (of_nat n)) saddr]"
  by (simp add: send_events_def)

lemma calls_simps:
  "send_calls (xs @ ys) = send_calls xs + send_calls ys"
  "recv_calls (xs @ ys) = recv_calls xs + recv_calls ys"
  "send_calls [] = 0" "recv_calls [] = 0"
  "send_calls (setup_events cfg saddr) = 0" "recv_calls (setup_events cfg saddr) = 0"
  "send_calls (send_events e saddr m n) = n" "recv_calls (send_events e saddr m n) = 0"
  "send_calls (replicate n EvRecvfrom) = 0" "recv_calls (replicate n EvRecvfrom) = n"
  "send_calls (stderr_of st) = 0" "recv_calls (stderr_of st) = 0"
  "send_calls (EvStdout l # xs) = send_calls xs" "recv_calls (EvStdout l # xs) = recv_calls xs"
  "send_calls (EvClock # xs) = send_calls xs" "recv_calls (EvClock # xs) = recv_calls xs"
  "send_calls (EvStderr err # xs) = send_calls xs" "recv_calls (EvStderr err # xs) = recv_calls xs"
  "send_calls (EvSendto f a # xs) = Suc (send_calls xs)" "recv_calls (EvSendto f a # xs) = recv_calls xs"
  "send_calls (EvRecvfrom # xs) = send_calls xs" "recv_calls (EvRecvfrom # xs) = Suc (recv_calls xs)"
  by (simp_all add: send_calls_def recv_calls_def io_calls_simps)

text \<open>A run whose setup succeeds, read off the two scripts.\<close>

lemma main_tx_eval:
  assumes "setup_ok en cfg" "transmitter cfg"
    and "send_script (unat (packet_count cfg)) ss = (st1, n1)"
    and "recv_script Transmitter (endianness en) (unat (packet_count cfg)) 0 rs = (st2, n2)"
  shows "fst (main en cfg ss rs) = (if st1 = Completed then st2 else st1)"
    and "send_calls (trace (snd (main en cfg ss rs))) = n1"
    and "recv_calls (trace (snd (main en cfg ss rs))) = (if st1 = Completed then n2 else 0)"
    and "length (sent_frames (trace (snd (main en cfg ss rs)))) = n1"
    and "stdout_lines (trace (snd (main en cfg ss rs))) =
           TransmitterBanner (iface_name cfg) #
           (if st1 = Completed \<and> st2 = Completed
            then [report_line (packet_count cfg) (nsec (clock en (Suc 0)) - nsec (clock en 0))]
            else [])"
proof -
  obtain st s' where run: "main en cfg ss rs = (st, s')" by (cases "main en cfg ss rs")
  from run have "st = (if st1 = Completed then st2 else st1) \<and>
    send_calls (trace s') = n1 \<and>
    recv_calls (trace s') = (if st1 = Completed then n2 else 0) \<and>
    length (sent_frames (trace s')) = n1 \<and>
    stdout_lines (trace s') =
           TransmitterBanner (iface_name cfg) #
           (if st1 = Completed \<and> st2 = Completed
            then [report_line (packet_count cfg) (nsec (clock en (Suc 0)) - nsec (clock en 0))]
            else [])"
  proof (cases rule: main_shape)
    case (fail err tr)
    with assms(1) show ?thesis by simp
  next
    case (rx m saddr st1 n1 st2 n2)
    with assms(2) show ?thesis by simp
  next
    case (tx m saddr a b c d)
    with assms(3,4) have eq: "a = st1" "b = n1" "c = st2" "d = n2" by simp_all
    show ?thesis
      unfolding tx(7) tx(6) eq
      by (simp add: calls_simps sent_frames_simps stdout_lines_simps)
  qed
  with run show "fst (main en cfg ss rs) = (if st1 = Completed then st2 else st1)"
    and "send_calls (trace (snd (main en cfg ss rs))) = n1"
    and "recv_calls (trace (snd (main en cfg ss rs))) = (if st1 = Completed then n2 else 0)"
    and "length (sent_frames (trace (snd (main en cfg ss rs)))) = n1"
    and "stdout_lines (trace (snd (main en cfg ss rs))) =
           TransmitterBanner (iface_name cfg) #
           (if st1 = Completed \<and> st2 = Completed
            then [report_line (packet_count cfg) (nsec (clock en (Suc 0)) - nsec (clock en 0))]
            else [])"
    by simp_all
qed

lemma main_rx_eval:
  assumes "setup_ok en cfg" "\<not> transmitter cfg"
    and "recv_script Responder (endianness en) (unat (packet_count cfg)) 0 rs = (st1, n1)"
    and "send_script (unat (packet_count cfg)) ss = (st2, n2)"
  shows "fst (main en cfg ss rs) = (if st1 = Completed then st2 else st1)"
    and "recv_calls (trace (snd (main en cfg ss rs))) = n1"
    and "send_calls (trace (snd (main en cfg ss rs))) = (if st1 = Completed then n2 else 0)"
    and "length (sent_frames (trace (snd (main en cfg ss rs)))) = (if st1 = Completed then n2 else 0)"
    and "stdout_lines (trace (snd (main en cfg ss rs))) = [ResponderBanner (iface_name cfg)]"
proof -
  obtain st s' where run: "main en cfg ss rs = (st, s')" by (cases "main en cfg ss rs")
  from run have "st = (if st1 = Completed then st2 else st1) \<and>
    recv_calls (trace s') = n1 \<and>
    send_calls (trace s') = (if st1 = Completed then n2 else 0) \<and>
    length (sent_frames (trace s')) = (if st1 = Completed then n2 else 0) \<and>
    stdout_lines (trace s') = [ResponderBanner (iface_name cfg)]"
  proof (cases rule: main_shape)
    case (fail err tr)
    with assms(1) show ?thesis by simp
  next
    case (tx m saddr st1 n1 st2 n2)
    with assms(2) show ?thesis by simp
  next
    case (rx m saddr a b c d)
    with assms(3,4) have eq: "a = st1" "b = n1" "c = st2" "d = n2" by simp_all
    show ?thesis
      unfolding rx(7) rx(6) eq
      by (simp add: calls_simps sent_frames_simps stdout_lines_simps)
  qed
  with run show "fst (main en cfg ss rs) = (if st1 = Completed then st2 else st1)"
    and "recv_calls (trace (snd (main en cfg ss rs))) = n1"
    and "send_calls (trace (snd (main en cfg ss rs))) = (if st1 = Completed then n2 else 0)"
    and "length (sent_frames (trace (snd (main en cfg ss rs)))) = (if st1 = Completed then n2 else 0)"
    and "stdout_lines (trace (snd (main en cfg ss rs))) = [ResponderBanner (iface_name cfg)]"
    by simp_all
qed

subsection \<open>The sample environment\<close>

lemma setup_ok_sample: "setup_ok (sample_env e) (sample_cfg ''eth0'' tx n)"
  by (simp add: setup_ok_def sample_env_def sample_cfg_def IFNAMSIZ_def)

lemma sample_fields:
  "endianness (sample_env e) = e"
  "packet_count (sample_cfg name tx n) = n"
  "transmitter (sample_cfg name tx n) = tx"
  "iface_name (sample_cfg name tx n) = name"
  by (simp_all add: sample_env_def sample_cfg_def)

lemma length_sample_frame:
  "length hdr = ETH_HLEN \<Longrightarrow> length (sample_frame e hdr w x) = frame_max_size"
  by (simp add: sample_frame_def length_u32_bytes geometry packet_size_def ETH_DATA_LEN_def)

lemma payload_words_sample:
  "length hdr = ETH_HLEN \<Longrightarrow> payload_words e (sample_frame e hdr w x) = (w, x)"
  by (simp add: payload_words_def load_u32_def load_def sample_frame_def length_u32_bytes
      u32_of_bytes_u32_bytes)

lemma recv_count_sample:
  "length hdr = ETH_HLEN \<Longrightarrow> recv_count (RecvFrame (sample_frame e hdr w x)) = int frame_max_size"
  by (simp add: recv_count_def length_sample_frame)

lemma accepts_sample:
  "length hdr = ETH_HLEN \<Longrightarrow> accepts e i (RecvFrame (sample_frame e hdr w x)) \<longleftrightarrow> w = magic \<and> x = i"
  by (simp add: accepts_def length_sample_frame payload_words_sample)

lemma two_Suc: "(2::nat) = Suc (Suc 0)"
  by simp

lemma tx_short_send:
  "send_script 2 [1514, 7] = (Aborted ShortSendError, 2)"
  by (subst two_Suc) (simp add: geometry)

lemma rx_short_recv:
  "recv_script Responder e 2 0
     [RecvFrame (sample_frame e (replicate 14 0) magic 0), RecvFrame (replicate 60 0)]
   = (Aborted ShortReceiveError, 2)"
  by (subst two_Suc, simp add: recv_count_sample accepts_sample ETH_HLEN_def)
     (simp add: recv_count_def frame_max_size_def ETH_FRAME_LEN_def)

lemma load_u32_sample:
  assumes "length hdr = ETH_HLEN"
  shows "load_u32 e (sample_frame e hdr w x) ETH_HLEN = w"
    and "load_u32 e (sample_frame e hdr w x) (ETH_HLEN + 4) = x"
  using payload_words_sample [OF assms, of e w x] by (simp_all add: payload_words_def)

lemma rx_bad_sequence:
  "recv_script Responder e 2 0
     [RecvFrame (sample_frame e (replicate 14 0) magic 0),
      RecvFrame (sample_frame e (replicate 14 0) magic 7)]
   = (Aborted (SequenceMismatchError Responder 1), 2)"
  by (subst two_Suc) (simp add: recv_count_sample accepts_sample ETH_HLEN_def)

lemma tx_bad_magic:
  "recv_script Transmitter e 2 0 [RecvFrame (sample_frame e (replicate 14 0) 0x12345678 0)]
   = (Aborted (SequenceMismatchError Transmitter 0), 1)"
  by (subst two_Suc) (simp add: recv_count_sample accepts_sample ETH_HLEN_def magic_def)

lemma tx_sends_ok: "send_script 2 [1514, 1514] = (Completed, 2)"
  by (subst two_Suc) (simp add: geometry)




lemma length_frame_of: "frame_max_size \<le> length m \<Longrightarrow> length (frame_of e m x) = frame_max_size"
  by (simp add: frame_of_def length_u32_bytes geometry)

lemma load_frame_of:
  assumes "ETH_HLEN \<le> length m"
  shows "load (frame_of e m x) 0 ETH_HLEN = take ETH_HLEN m"
    and "load (frame_of e m x) ETH_HLEN 4 = u32_bytes e magic"
    and "load (frame_of e m x) (ETH_HLEN + 4) 4 = u32_bytes e x"
    and "drop (ETH_HLEN + 8) (frame_of e m x) =
           take (frame_max_size - (ETH_HLEN + 8)) (drop (ETH_HLEN + 8) m)"
  using assms by (simp_all add: frame_of_def load_def length_u32_bytes)

lemma sent_frames_no_io: "io_calls tr = [] \<Longrightarrow> sent_frames tr = []"
proof (induction tr)
  case Nil
  then show ?case by (simp add: sent_frames_def)
next
  case (Cons ev tr)
  then show ?case by (cases ev) (simp_all add: sent_frames_Cons io_calls_Cons)
qed

lemma rx_two_ok:
  "recv_script r e 2 0
     [RecvFrame (sample_frame e [0, 0, 0, 0, 0, 0, 0, 0, 0, 0, 0, 0, 0, 0] magic 0),
      RecvFrame (sample_frame e [0, 0, 0, 0, 0, 0, 0, 0, 0, 0, 0, 0, 0, 0] magic 1)]
   = (Completed, 2)"
proof -
  have h: "length [0, 0, 0, 0, 0, 0, 0, 0, 0, 0, 0, 0, 0, 0 :: byte] = ETH_HLEN"
    by (simp add: ETH_HLEN_def)
  show ?thesis
    by (subst two_Suc) (simp add: recv_count_sample [OF h] accepts_sample [OF h])
qed

lemma no_clock:
  "EvClock \<notin> set (setup_events cfg saddr)"
  "EvClock \<notin> set (send_events e saddr m n)"
  "EvClock \<notin> set (stderr_of st)"
  by (auto simp: setup_events_def send_events_def stderr_of_def split: status.splits)

lemma double_of_nat_small: "n < 2 ^ 53 \<Longrightarrow> double_of_nat n = n"
  by (simp add: double_of_nat_def)

lemma double_of_nat_pos:
  assumes "0 < n"
  shows "0 < double_of_nat n"
proof (cases "n < 2 ^ 53")
  case True
  with assms show ?thesis by (simp add: double_of_nat_small)
next
  case False
  define x where "x = floorlog 2 n - 53"
  have "(2::nat) ^ x \<le> 2 ^ (floorlog 2 n - 1)"
    unfolding x_def by (rule power_increasing) simp_all
  also have "\<dots> \<le> n"
    using floorlog_bounds [of n 2] assms by simp
  finally have "2 ^ x \<le> n" .
  then have q: "0 < n div 2 ^ x"
    by (simp add: div_greater_zero_iff)
  show ?thesis
    using False q by (simp add: double_of_nat_def Let_def x_def [symmetric])
qed

lemma transceived_exact:
  "double_mult (double_mult (double_of_nat packet_size) (double_of_nat (unat (pc::u32)))) 2
   = 2 * packet_size * unat pc"
proof -
  have "unat pc < 2 ^ 32"
    using unsigned_less [of pc, where 'a = nat] by simp
  then have b: "unat pc < 4294967296" by simp
  have 1: "double_of_nat packet_size = 1500"
    by (simp add: double_of_nat_small packet_size_def ETH_DATA_LEN_def)
  have 2: "double_of_nat (unat pc) = unat pc"
    using b by (simp add: double_of_nat_small)
  have 3: "double_of_nat (1500 * unat pc) = 1500 * unat pc"
    using b by (simp add: double_of_nat_small)
  have 4: "double_of_nat (3000 * unat pc) = 3000 * unat pc"
    using b by (simp add: double_of_nat_small)
  show ?thesis
    by (simp add: double_mult_def 1 2 3 4) (simp add: packet_size_def ETH_DATA_LEN_def)
qed

lemma stdout_lines_mem: "l \<in> set (stdout_lines tr) \<longleftrightarrow> EvStdout l \<in> set tr"
proof (induction tr)
  case Nil
  then show ?case by (simp add: stdout_lines_def)
next
  case (Cons ev tr)
  then show ?case by (cases ev) (auto simp add: stdout_lines_Cons)
qed

lemma send_script_all_ok: "send_script d (replicate d (int frame_max_size)) = (Completed, d)"
  by (induction d) simp_all

lemma recv_script_all_ok:
  assumes "length hdr = ETH_HLEN"
  shows "recv_script r e d i
           (map (\<lambda>k. RecvFrame (sample_frame e hdr magic (i + of_nat k))) [0..<d])
         = (Completed, d)"
proof (induction d arbitrary: i)
  case 0
  then show ?case by simp
next
  case (Suc d)
  have "map (\<lambda>k. RecvFrame (sample_frame e hdr magic (i + of_nat k))) [0..<Suc d] =
        RecvFrame (sample_frame e hdr magic i) #
        map (\<lambda>k. RecvFrame (sample_frame e hdr magic (i + 1 + of_nat k))) [0..<d]"
    by (simp add: upt_Suc_map add.assoc del: upt_Suc)
  then show ?case
    using Suc [of "i + 1"]
    by (simp add: recv_count_sample [OF assms] accepts_sample [OF assms] del: upt_Suc)
qed

lemma setup_ok_sample_clock: "setup_ok (sample_env e\<lparr>clock := c\<rparr>) (sample_cfg ''eth0'' tx n)"
  by (simp add: setup_ok_def sample_env_def sample_cfg_def IFNAMSIZ_def)

lemma nth_stamp:
  assumes "ETH_HLEN + 8 \<le> length m" "b < length m" "\<not> (payload0 \<le> b \<and> b < payload0 + 8)"
  shows "stamp e m x ! b = m ! b"
proof (cases "b < payload0")
  case True
  then show ?thesis
    using assms by (simp add: stamp_eq nth_append geometry)
next
  case False
  with assms(3) have b: "\<not> b < ETH_HLEN + 8" by (simp add: geometry)
  let ?p = "take ETH_HLEN m @ u32_bytes e magic @ u32_bytes e x"
  have eq: "stamp e m x = ?p @ drop (ETH_HLEN + 8) m"
    using assms(1) by (simp add: stamp_eq)
  have len: "length ?p = ETH_HLEN + 8"
    using assms(1) by (simp add: length_u32_bytes)
  have "stamp e m x ! b = drop (ETH_HLEN + 8) m ! (b - (ETH_HLEN + 8))"
    unfolding eq nth_append len using b by (simp only: if_False)
  also have "\<dots> = m ! b"
    using b assms(1,2) by simp
  finally show ?thesis .
qed

lemma sent_frames_map: "sent_frames (map (\<lambda>k. EvSendto (g k) a) xs) = map g xs"
  by (induction xs) (simp_all add: sent_frames_Nil sent_frames_Cons)

lemma load_stamp_header:
  "ETH_HLEN + 8 \<le> length m \<Longrightarrow> load (stamp e m x) frame0 ETH_HLEN = load m frame0 ETH_HLEN"
  by (simp add: stamp_eq load_def geometry)

section \<open>The claims\<close>

text \<open>
  C2. In either role and at every position of either loop, a \<open>sendto\<close> that returns
  anything but the full frame length aborts the run with the short-send diagnostic,
  and a \<open>recvfrom\<close> that returns anything but the full frame length aborts it with the
  short-receive diagnostic. Here \<open>j\<close> is the number of the call within the run, whose
  answer is the \<open>j\<close>-th one of the script. The run ends there: \<open>main\<close> returns \<open>-1\<close>,
  the failed call is the last one made (no retry), and the diagnostic follows it
  directly.
\<close>

theorem short_io_aborts:
  assumes "main en cfg ss rs = (st, s')"
  shows "(j < send_calls (trace s') \<and> j < length ss \<and> ss ! j \<noteq> int frame_max_size \<longrightarrow>
            st = Aborted ShortSendError \<and> main_return st = Some (- 1) \<and>
            send_calls (trace s') = Suc j \<and>
            (\<exists>pre f a. trace s' = pre @ [EvSendto f a, EvStderr ShortSendError]))
       \<and> (j < recv_calls (trace s') \<and> j < length rs \<and> recv_count (rs ! j) \<noteq> int frame_max_size \<longrightarrow>
            st = Aborted ShortReceiveError \<and> main_return st = Some (- 1) \<and>
            recv_calls (trace s') = Suc j \<and>
            (\<exists>pre. trace s' = pre @ [EvRecvfrom, EvStderr ShortReceiveError]))"
  using assms
proof (cases rule: main_shape)
  case (fail err tr)
  then have "send_calls (trace s') = 0" "recv_calls (trace s') = 0"
    by (simp_all add: send_calls_def recv_calls_def io_calls_simps)
  then show ?thesis by simp
next
  case (tx m saddr st1 n1 st2 n2)
  have sc: "send_calls (trace s') = n1"
    and rc: "recv_calls (trace s') = (if st1 = Completed then n2 else 0)"
    unfolding tx(7) by (simp_all add: calls_simps)
  have A: "st = Aborted ShortSendError \<and> main_return st = Some (- 1) \<and>
            send_calls (trace s') = Suc j \<and>
            (\<exists>pre f a. trace s' = pre @ [EvSendto f a, EvStderr ShortSendError])"
    if "j < send_calls (trace s')" "j < length ss" "ss ! j \<noteq> int frame_max_size"
  proof -
    from send_script_short [OF tx(4) _ that(2,3)] that(1) sc
    have *: "st1 = Aborted ShortSendError" "n1 = Suc j" by simp_all
    then show ?thesis
      unfolding tx(7) using tx(6) sc
      by (simp add: send_events_Suc stderr_of_def calls_simps)
  qed
  have B: "st = Aborted ShortReceiveError \<and> main_return st = Some (- 1) \<and>
            recv_calls (trace s') = Suc j \<and>
            (\<exists>pre. trace s' = pre @ [EvRecvfrom, EvStderr ShortReceiveError])"
    if "j < recv_calls (trace s')" "j < length rs" "recv_count (rs ! j) \<noteq> int frame_max_size"
  proof -
    from that(1) rc have c: "st1 = Completed" "j < n2" by (simp_all split: if_splits)
    from recv_script_short [OF tx(5) c(2) that(2,3)]
    have *: "st2 = Aborted ShortReceiveError" "n2 = Suc j" by simp_all
    have "replicate (Suc j) EvRecvfrom = replicate j EvRecvfrom @ [EvRecvfrom]"
      by (simp add: replicate_append_same)
    then show ?thesis
      unfolding tx(7) using tx(6) c *
      by (simp add: stderr_of_def calls_simps del: replicate_Suc)
  qed
  from A B show ?thesis by blast
next
  case (rx m saddr st1 n1 st2 n2)
  have rc: "recv_calls (trace s') = n1"
    and sc: "send_calls (trace s') = (if st1 = Completed then n2 else 0)"
    unfolding rx(7) by (simp_all add: calls_simps)
  have A: "st = Aborted ShortSendError \<and> main_return st = Some (- 1) \<and>
            send_calls (trace s') = Suc j \<and>
            (\<exists>pre f a. trace s' = pre @ [EvSendto f a, EvStderr ShortSendError])"
    if "j < send_calls (trace s')" "j < length ss" "ss ! j \<noteq> int frame_max_size"
  proof -
    from that(1) sc have c: "st1 = Completed" "j < n2" by (simp_all split: if_splits)
    from send_script_short [OF rx(5) c(2) that(2,3)]
    have *: "st2 = Aborted ShortSendError" "n2 = Suc j" by simp_all
    then show ?thesis
      unfolding rx(7) using rx(6) c
      by (simp add: send_events_Suc stderr_of_def calls_simps)
  qed
  have B: "st = Aborted ShortReceiveError \<and> main_return st = Some (- 1) \<and>
            recv_calls (trace s') = Suc j \<and>
            (\<exists>pre. trace s' = pre @ [EvRecvfrom, EvStderr ShortReceiveError])"
    if "j < recv_calls (trace s')" "j < length rs" "recv_count (rs ! j) \<noteq> int frame_max_size"
  proof -
    from recv_script_short [OF rx(4) _ that(2,3)] that(1) rc
    have *: "st1 = Aborted ShortReceiveError" "n1 = Suc j" by simp_all
    have "replicate (Suc j) EvRecvfrom = replicate j EvRecvfrom @ [EvRecvfrom]"
      by (simp add: replicate_append_same)
    then show ?thesis
      unfolding rx(7) using rx(6) *
      by (simp add: stderr_of_def calls_simps del: replicate_Suc)
  qed
  from A B show ?thesis by blast
qed

theorem short_io_aborts_witness:
  "(1 < send_calls (trace (snd (main (sample_env LittleEndian) (sample_cfg ''eth0'' True 2) [1514, 7] [])))
    \<and> (1::nat) < length [1514, 7 :: int] \<and> [1514, 7] ! 1 \<noteq> int frame_max_size
    \<and> fst (main (sample_env LittleEndian) (sample_cfg ''eth0'' True 2) [1514, 7] []) = Aborted ShortSendError
    \<and> send_calls (trace (snd (main (sample_env LittleEndian) (sample_cfg ''eth0'' True 2) [1514, 7] []))) = 2)
   \<and> (let rs = [RecvFrame (sample_frame BigEndian (replicate 14 0) magic 0), RecvFrame (replicate 60 0)];
           run = main (sample_env BigEndian) (sample_cfg ''eth0'' False 2) [] rs
       in 1 < recv_calls (trace (snd run)) \<and> 1 < length rs \<and> recv_count (rs ! 1) \<noteq> int frame_max_size
          \<and> fst run = Aborted ShortReceiveError \<and> recv_calls (trace (snd run)) = 2)"
proof -
  let ?ss = "[1514, 7 :: int]"
  let ?t = "main (sample_env LittleEndian) (sample_cfg ''eth0'' True 2) ?ss []"
  have t: "send_calls (trace (snd ?t)) = 2"
    using main_tx_eval(2) [OF setup_ok_sample _ _ prod.collapse [symmetric],
        of True 2 ?ss "Aborted ShortSendError" 2 LittleEndian "[]"]
    unfolding sample_fields by (simp add: tx_short_send)
  have A: "fst ?t = Aborted ShortSendError \<and> send_calls (trace (snd ?t)) = 2"
    using short_io_aborts [of "sample_env LittleEndian" "sample_cfg ''eth0'' True 2" ?ss "[]"
        "fst ?t" "snd ?t" 1] t
    by (simp add: geometry)
  let ?rs = "[RecvFrame (sample_frame BigEndian (replicate 14 0) magic 0), RecvFrame (replicate 60 0)]"
  let ?r = "main (sample_env BigEndian) (sample_cfg ''eth0'' False 2) [] ?rs"
  have r: "recv_calls (trace (snd ?r)) = 2"
    using main_rx_eval(2) [OF setup_ok_sample _ _ prod.collapse [symmetric],
        of False 2 BigEndian ?rs "Aborted ShortReceiveError" 2 "[]"]
    unfolding sample_fields by (simp add: rx_short_recv)
  have rc: "recv_count (?rs ! 1) \<noteq> int frame_max_size"
    by (simp add: recv_count_def geometry)
  have B: "fst ?r = Aborted ShortReceiveError \<and> recv_calls (trace (snd ?r)) = 2"
    using short_io_aborts [of "sample_env BigEndian" "sample_cfg ''eth0'' False 2" "[]" ?rs
        "fst ?r" "snd ?r" 1] r rc
    by simp
  show ?thesis
    using A B t r rc by (simp add: Let_def geometry)
qed

text \<open>
  C1. In either role, when the \<open>j\<close>-th \<open>recvfrom\<close> of a run returns a full-length frame
  whose payload does not start with the magic constant followed by \<open>j\<close> (the index
  expected at that call), the run aborts with the sequence-mismatch diagnostic for
  index \<open>j\<close> and \<open>main\<close> returns \<open>-1\<close>. That call is the last receive of the run and
  the diagnostic follows it directly: a payload \<open>(magic, k)\<close> with \<open>k \<noteq> j\<close> is
  neither accepted nor taken as the new position.
\<close>

theorem sequence_mismatch_aborts:
  assumes "main en cfg ss rs = (st, s')"
    and "j < recv_calls (trace s')" "j < length rs"
    and "rs ! j = RecvFrame d" "frame_max_size \<le> length d"
    and "load_u32 (endianness en) d ETH_HLEN \<noteq> magic \<or>
         load_u32 (endianness en) d (ETH_HLEN + 4) \<noteq> of_nat j"
  shows "st = Aborted (SequenceMismatchError (if transmitter cfg then Transmitter else Responder)
                         (of_nat j))
       \<and> main_return st = Some (- 1)
       \<and> recv_calls (trace s') = Suc j
       \<and> (\<exists>pre. trace s' =
             pre @ [EvRecvfrom,
                    EvStderr (SequenceMismatchError
                                (if transmitter cfg then Transmitter else Responder) (of_nat j))])"
proof -
  have full: "recv_count (rs ! j) = int frame_max_size"
    using assms(4,5) by (simp add: recv_count_def)
  have bad: "\<not> accepts (endianness en) (0 + of_nat j) (rs ! j)"
    using assms(4,6) by (auto simp: accepts_def payload_words_def)
  have rep: "replicate (Suc j) EvRecvfrom = replicate j EvRecvfrom @ [EvRecvfrom]"
    by (simp add: replicate_append_same)
  from assms(1) show ?thesis
  proof (cases rule: main_shape)
    case (fail err tr)
    then have "recv_calls (trace s') = 0"
      by (simp add: recv_calls_def io_calls_simps)
    with assms(2) show ?thesis by simp
  next
    case (tx m saddr st1 n1 st2 n2)
    have rc: "recv_calls (trace s') = (if st1 = Completed then n2 else 0)"
      unfolding tx(7) by (simp add: calls_simps)
    with assms(2) have c: "st1 = Completed" "j < n2" by (simp_all split: if_splits)
    from recv_script_mismatch [OF tx(5) c(2) assms(3) full bad]
    have *: "st2 = Aborted (SequenceMismatchError Transmitter (of_nat j))" "n2 = Suc j"
      by simp_all
    show ?thesis
      unfolding tx(7) using tx(2,6) c * rep
      by (simp add: stderr_of_def calls_simps del: replicate_Suc)
  next
    case (rx m saddr st1 n1 st2 n2)
    have rc: "recv_calls (trace s') = n1"
      unfolding rx(7) by (simp add: calls_simps)
    with assms(2) have c: "j < n1" by simp
    from recv_script_mismatch [OF rx(4) c assms(3) full bad]
    have *: "st1 = Aborted (SequenceMismatchError Responder (of_nat j))" "n1 = Suc j"
      by simp_all
    show ?thesis
      unfolding rx(7) using rx(2,6) * rep
      by (simp add: stderr_of_def calls_simps del: replicate_Suc)
  qed
qed

theorem sequence_mismatch_aborts_witness:
  "(let rs = [RecvFrame (sample_frame LittleEndian (replicate 14 0) magic 0),
              RecvFrame (sample_frame LittleEndian (replicate 14 0) magic 7)];
        run = main (sample_env LittleEndian) (sample_cfg ''eth0'' False 2) [] rs
    in 1 < recv_calls (trace (snd run)) \<and> 1 < length rs
       \<and> frame_max_size \<le> length (sample_frame LittleEndian (replicate 14 0) magic 7)
       \<and> load_u32 LittleEndian (sample_frame LittleEndian (replicate 14 0) magic 7) (ETH_HLEN + 4) \<noteq> 1
       \<and> fst run = Aborted (SequenceMismatchError Responder 1)
       \<and> recv_calls (trace (snd run)) = 2)
   \<and> (let rs = [RecvFrame (sample_frame BigEndian (replicate 14 0) 0x12345678 0)];
          run = main (sample_env BigEndian) (sample_cfg ''eth0'' True 2) [1514, 1514] rs
      in 0 < recv_calls (trace (snd run)) \<and> 0 < length rs
         \<and> load_u32 BigEndian (sample_frame BigEndian (replicate 14 0) 0x12345678 0) ETH_HLEN \<noteq> magic
         \<and> fst run = Aborted (SequenceMismatchError Transmitter 0)
         \<and> recv_calls (trace (snd run)) = 1)"
proof -
  let ?f = "sample_frame LittleEndian (replicate 14 0) magic 7"
  let ?rs = "[RecvFrame (sample_frame LittleEndian (replicate 14 0) magic 0), RecvFrame ?f]"
  let ?r = "main (sample_env LittleEndian) (sample_cfg ''eth0'' False 2) [] ?rs"
  have h: "length (replicate 14 (0::byte)) = ETH_HLEN" by (simp add: ETH_HLEN_def)
  have r: "recv_calls (trace (snd ?r)) = 2"
    using main_rx_eval(2) [OF setup_ok_sample _ _ prod.collapse [symmetric],
        of False 2 LittleEndian ?rs "Aborted (SequenceMismatchError Responder 1)" 2 "[]"]
    unfolding sample_fields by (simp add: rx_bad_sequence)
  have lf: "frame_max_size \<le> length ?f"
    by (simp add: length_sample_frame [OF h])
  have wf: "load_u32 LittleEndian ?f (ETH_HLEN + 4) \<noteq> 1"
    by (simp add: load_u32_sample [OF h])
  have A: "fst ?r = Aborted (SequenceMismatchError Responder 1) \<and> recv_calls (trace (snd ?r)) = 2"
    using sequence_mismatch_aborts [of "sample_env LittleEndian" "sample_cfg ''eth0'' False 2"
        "[]" ?rs "fst ?r" "snd ?r" 1 ?f] r lf wf
    by (simp add: sample_fields)
  let ?g = "sample_frame BigEndian (replicate 14 0) 0x12345678 0"
  let ?t = "main (sample_env BigEndian) (sample_cfg ''eth0'' True 2) [1514, 1514] [RecvFrame ?g]"
  have t: "recv_calls (trace (snd ?t)) = 1"
    using main_tx_eval(3) [OF setup_ok_sample, of True 2 "[1514, 1514]" Completed 2 BigEndian
        "[RecvFrame ?g]" "Aborted (SequenceMismatchError Transmitter 0)" 1]
    unfolding sample_fields by (simp add: tx_bad_magic tx_sends_ok)
  have lg: "frame_max_size \<le> length ?g"
    by (simp add: length_sample_frame [OF h])
  have wg: "load_u32 BigEndian ?g ETH_HLEN \<noteq> magic"
    by (simp add: load_u32_sample [OF h] magic_def)
  have B: "fst ?t = Aborted (SequenceMismatchError Transmitter 0) \<and> recv_calls (trace (snd ?t)) = 1"
    using sequence_mismatch_aborts [of "sample_env BigEndian" "sample_cfg ''eth0'' True 2"
        "[1514, 1514]" "[RecvFrame ?g]" "fst ?t" "snd ?t" 0 ?g] t lg wg
    by (simp add: sample_fields)
  show ?thesis
    using A B r t lf wf wg by (simp add: Let_def)
qed



text \<open>
  C3. When \<open>init_ethhdr_and_saddr\<close> is called with a name shorter than \<open>IFNAMSIZ\<close>
  and both ioctl queries succeed, it returns a header whose destination is the six
  octets of the target, whose source is the six octets of the hardware address the
  interface query returned, and whose protocol field is \<open>htons(ETH_P_IP)\<close> (in memory
  the bytes \<open>08 00\<close> on either byte order), together with a socket address whose
  first six address octets are those of the target as well, octet by octet the
  header's destination, and whose interface index is the one the index query returned.
\<close>

theorem header_address_binding:
  assumes "namelen < IFNAMSIZ"
    and "ifindex en (take namelen name) = Some idx"
    and "hwaddr en (take namelen name) = Some sa"
    and "ETH_ALEN \<le> length tgt" "ETH_ALEN \<le> length sa"
    and "length (h_dest h) = ETH_ALEN" "length (h_source h) = ETH_ALEN"
  shows "\<exists>hdr saddr s'.
           init_ethhdr_and_saddr en name namelen tgt h s = (Inr (hdr, saddr), s')
         \<and> h_dest hdr = take ETH_ALEN tgt
         \<and> h_source hdr = take ETH_ALEN sa
         \<and> h_proto hdr = htons (endianness en) ETH_P_IP
         \<and> bytes_of_ethhdr (endianness en) hdr = take ETH_ALEN tgt @ take ETH_ALEN sa @ [0x08, 0x00]
         \<and> sll_addr saddr = take ETH_ALEN tgt @ [0, 0]
         \<and> (\<forall>i<ETH_ALEN. sll_addr saddr ! i = h_dest hdr ! i \<and> h_dest hdr ! i = tgt ! i)
         \<and> sll_ifindex saddr = idx \<and> sll_halen saddr = 6"
proof -
  have d: "copy_octets ETH_ALEN tgt (h_dest h) = take ETH_ALEN tgt"
    using assms(4,6) by (simp add: copy_octets_eq)
  have s: "copy_octets ETH_ALEN sa (h_source h) = take ETH_ALEN sa"
    using assms(5,7) by (simp add: copy_octets_eq)
  have "replicate 2 (0::byte) = [0, 0]"
    by (simp add: numeral_2_eq_2)
  then have a: "copy_octets ETH_ALEN tgt (replicate 8 0) = take ETH_ALEN tgt @ [0, 0]"
    using assms(4) by (simp add: copy_octets_eq ETH_ALEN_def)
  have n: "(take ETH_ALEN tgt @ [0, 0]) ! i = take ETH_ALEN tgt ! i" if "i < ETH_ALEN" for i
    using that assms(4) by (simp add: nth_append)
  have hl: "(of_nat ETH_ALEN :: byte) = 6"
    by (simp add: ETH_ALEN_def)
  show ?thesis
    unfolding init_ok [OF assms(1-3)]
    by (simp add: d s a n hl bytes_of_ethhdr_def u16_bytes_htons)
qed

theorem header_address_binding_witness:
  "(let en = sample_env LittleEndian;
        tgt = [0x02, 0x00, 0x00, 0x00, 0x00, 0x02, 0, 0];
        h = \<lparr>h_dest = replicate 6 0xAA, h_source = replicate 6 0xBB, h_proto = 0\<rparr>;
        s = \<lparr>mem = [], sends = [], recvs = [], ticks = 0, trace = []\<rparr>
    in (4::nat) < IFNAMSIZ
       \<and> ifindex en (take 4 ''eth0'') = Some 2
       \<and> hwaddr en (take 4 ''eth0'') = Some [0x02, 0x00, 0x00, 0x00, 0x00, 0x01, 0, 0, 0, 0, 0, 0, 0, 0]
       \<and> (\<exists>hdr saddr s'.
             init_ethhdr_and_saddr en ''eth0'' 4 tgt h s = (Inr (hdr, saddr), s')
           \<and> bytes_of_ethhdr LittleEndian hdr =
               [0x02, 0x00, 0x00, 0x00, 0x00, 0x02, 0x02, 0x00, 0x00, 0x00, 0x00, 0x01, 0x08, 0x00]
           \<and> sll_addr saddr = [0x02, 0x00, 0x00, 0x00, 0x00, 0x02, 0, 0]
           \<and> sll_ifindex saddr = 2))"
proof -
  let ?en = "sample_env LittleEndian"
  let ?tgt = "[0x02, 0x00, 0x00, 0x00, 0x00, 0x02, 0, 0 :: byte]"
  let ?sa = "[0x02, 0x00, 0x00, 0x00, 0x00, 0x01, 0, 0, 0, 0, 0, 0, 0, 0 :: byte]"
  let ?h = "\<lparr>h_dest = replicate 6 0xAA, h_source = replicate 6 0xBB, h_proto = 0\<rparr>"
  let ?s = "\<lparr>mem = [], sends = [], recvs = [], ticks = 0, trace = []\<rparr>"
  have hyp: "(4::nat) < IFNAMSIZ" "ifindex ?en (take 4 ''eth0'') = Some 2"
    "hwaddr ?en (take 4 ''eth0'') = Some ?sa"
    "ETH_ALEN \<le> length ?tgt" "ETH_ALEN \<le> length ?sa"
    "length (h_dest ?h) = ETH_ALEN" "length (h_source ?h) = ETH_ALEN"
    by (simp_all add: IFNAMSIZ_def sample_env_def ETH_ALEN_def)
  from header_address_binding [OF hyp, where s = ?s]
  obtain hdr saddr s' where
    "init_ethhdr_and_saddr ?en ''eth0'' 4 ?tgt ?h ?s = (Inr (hdr, saddr), s')"
    "bytes_of_ethhdr LittleEndian hdr = take ETH_ALEN ?tgt @ take ETH_ALEN ?sa @ [0x08, 0x00]"
    "sll_addr saddr = take ETH_ALEN ?tgt @ [0, 0]" "sll_ifindex saddr = 2"
    by (auto simp: sample_fields)
  then show ?thesis
    unfolding Let_def using hyp(1-3)
    by (auto simp add: ETH_ALEN_def)
qed

text \<open>
  C4. In a transmitter run, the \<open>k\<close>-th frame handed to \<open>sendto\<close> is a full frame
  whose payload starts with the four bytes of the magic constant \<open>0x32100123\<close>
  followed by the four bytes of \<open>k\<close>, both as the process stores a 32-bit word (on a
  little-endian machine \<open>23 01 10 32\<close>, on a big-endian one \<open>32 10 01 23\<close>), so the
  frames go out with the indices \<open>0, 1, 2, \<dots>\<close> in increasing order, below the packet
  count; all sends come before any receive, and a run that completes has sent exactly
  \<open>packet_count\<close> frames.
\<close>

theorem transmitter_send_phase:
  assumes "main en cfg ss rs = (st, s')" "transmitter cfg"
    and "k < length (sent_frames (trace s'))"
  shows "length (sent_frames (trace s') ! k) = frame_max_size
       \<and> load (sent_frames (trace s') ! k) ETH_HLEN 4 = u32_bytes (endianness en) magic
       \<and> load (sent_frames (trace s') ! k) (ETH_HLEN + 4) 4 = u32_bytes (endianness en) (of_nat k)
       \<and> u32_bytes (endianness en) magic =
            (case endianness en of LittleEndian \<Rightarrow> [0x23, 0x01, 0x10, 0x32]
             | BigEndian \<Rightarrow> [0x32, 0x10, 0x01, 0x23])
       \<and> payload_words (endianness en) (sent_frames (trace s') ! k) = (magic, of_nat k)
       \<and> k < unat (packet_count cfg)
       \<and> (st = Completed \<longrightarrow> length (sent_frames (trace s')) = unat (packet_count cfg))
       \<and> (\<exists>n. io_calls (trace s') =
                 replicate (length (sent_frames (trace s'))) IoSend @ replicate n IoRecv)"
  using assms(1)
proof (cases rule: main_shape)
  case (fail err tr)
  then have "sent_frames (trace s') = []"
    by (simp add: sent_frames_simps sent_frames_no_io)
  with assms(3) show ?thesis by simp
next
  case (rx m saddr st1 n1 st2 n2)
  with assms(2) show ?thesis by simp
next
  case (tx m saddr st1 n1 st2 n2)
  let ?e = "endianness en"
  have sf: "sent_frames (trace s') = map (\<lambda>k. frame_of ?e m (of_nat k)) [0..<n1]"
    unfolding tx(7) by (simp add: sent_frames_simps)
  with assms(3) have k: "k < n1" by simp
  have fk: "sent_frames (trace s') ! k = frame_of ?e m (of_nat k)"
    using sf k by simp
  have len: "frame_max_size \<le> length m" "ETH_HLEN \<le> length m"
    using tx(3) by (simp_all add: geometry)
  have io: "io_calls (trace s') = replicate n1 IoSend @
              replicate (if st1 = Completed then n2 else 0) IoRecv"
    unfolding tx(7) by (simp add: io_calls_simps)
  have pw: "payload_words ?e (frame_of ?e m (of_nat k)) = (magic, of_nat k)"
    using load_frame_of(2,3) [OF len(2), of ?e "of_nat k"]
    by (simp add: payload_words_def load_u32_def u32_of_bytes_u32_bytes)
  have c: "length (sent_frames (trace s')) = unat (packet_count cfg)" if "st = Completed"
    using that tx(6) send_script_Completed [of _ ss n1] tx(4) sf
    by (auto split: if_splits)
  show ?thesis
    unfolding fk
    using send_script_le [OF tx(4)] k c io sf pw
    by (auto simp add: length_frame_of [OF len(1)] load_frame_of [OF len(2)] u32_bytes_magic)
qed

theorem transmitter_send_phase_witness:
  "(let rs = [RecvFrame (sample_frame LittleEndian [0, 0, 0, 0, 0, 0, 0, 0, 0, 0, 0, 0, 0, 0] magic 0),
              RecvFrame (sample_frame LittleEndian [0, 0, 0, 0, 0, 0, 0, 0, 0, 0, 0, 0, 0, 0] magic 1)];
        run = main (sample_env LittleEndian) (sample_cfg ''eth0'' True 2) [1514, 1514] rs;
        fs = sent_frames (trace (snd run))
    in transmitter (sample_cfg ''eth0'' True 2) \<and> 1 < length fs
       \<and> length fs = 2 \<and> fst run = Completed
       \<and> length (fs ! 1) = 1514
       \<and> load (fs ! 1) ETH_HLEN 4 = [0x23, 0x01, 0x10, 0x32]
       \<and> load (fs ! 1) (ETH_HLEN + 4) 4 = [0x01, 0x00, 0x00, 0x00])"
proof -
  let ?rs = "[RecvFrame (sample_frame LittleEndian [0, 0, 0, 0, 0, 0, 0, 0, 0, 0, 0, 0, 0, 0] magic 0),
              RecvFrame (sample_frame LittleEndian [0, 0, 0, 0, 0, 0, 0, 0, 0, 0, 0, 0, 0, 0] magic 1)]"
  let ?en = "sample_env LittleEndian" and ?cfg = "sample_cfg ''eth0'' True 2"
  let ?run = "main ?en ?cfg [1514, 1514] ?rs"
  note ev = main_tx_eval [OF setup_ok_sample, of True 2 "[1514, 1514]" Completed 2 LittleEndian
      ?rs Completed 2, unfolded sample_fields, simplified, OF tx_sends_ok rx_two_ok]
  have n: "length (sent_frames (trace (snd ?run))) = 2" and c: "fst ?run = Completed"
    using ev by simp_all
  have one: "u32_bytes LittleEndian 1 = [0x01, 0x00, 0x00, 0x00]"
    by (simp add: u32_bytes_def le_bytes_4)
  from transmitter_send_phase [of ?en ?cfg "[1514, 1514]" ?rs "fst ?run" "snd ?run" 1] n
  have "length (sent_frames (trace (snd ?run)) ! 1) = frame_max_size"
    "load (sent_frames (trace (snd ?run)) ! 1) ETH_HLEN 4 = [0x23, 0x01, 0x10, 0x32]"
    "load (sent_frames (trace (snd ?run)) ! 1) (ETH_HLEN + 4) 4 = [0x01, 0x00, 0x00, 0x00]"
    by (simp_all add: sample_fields one)
  then show ?thesis
    unfolding Let_def using n c by (simp add: sample_fields geometry)
qed

text \<open>
  C5. A responder run makes its frame transfers in the opposite order of the
  transmitter: first \<open>recvfrom\<close> calls only, then \<open>sendto\<close> calls only, at most
  \<open>packet_count\<close> of each. A send takes place only after all \<open>packet_count\<close>
  receives have returned and each received frame has passed the check against
  \<open>(magic, j)\<close> for its index \<open>j\<close> (\<open>accepts\<close>: a full-length frame with these two
  words); the \<open>k\<close>-th frame sent is a full frame carrying \<open>(magic, k)\<close>; a completed
  run has made \<open>packet_count\<close> receives and \<open>packet_count\<close> sends. The responder
  never reads the clock and prints nothing but its banner: no elapsed time, no byte
  count, no bandwidth.
\<close>

theorem responder_phase_order:
  assumes "main en cfg ss rs = (st, s')" "\<not> transmitter cfg"
  shows "\<exists>m n. io_calls (trace s') = replicate m IoRecv @ replicate n IoSend
           \<and> m \<le> unat (packet_count cfg) \<and> n \<le> unat (packet_count cfg)
           \<and> (0 < n \<longrightarrow> m = unat (packet_count cfg) \<and>
                 (\<forall>j<unat (packet_count cfg).
                     j < length rs \<and> accepts (endianness en) (of_nat j) (rs ! j)))
           \<and> (st = Completed \<longrightarrow> m = unat (packet_count cfg) \<and> n = unat (packet_count cfg))
           \<and> length (sent_frames (trace s')) = n
           \<and> (\<forall>k<n. length (sent_frames (trace s') ! k) = frame_max_size \<and>
                    payload_words (endianness en) (sent_frames (trace s') ! k) = (magic, of_nat k))
           \<and> EvClock \<notin> set (trace s')
           \<and> set (stdout_lines (trace s')) \<subseteq> {ResponderBanner (iface_name cfg)}"
  using assms(1)
proof (cases rule: main_shape)
  case (fail err tr)
  then show ?thesis
    by (intro exI [of _ 0])
       (simp add: io_calls_simps stdout_lines_simps sent_frames_simps sent_frames_no_io)
next
  case (tx m saddr st1 n1 st2 n2)
  with assms(2) show ?thesis by simp
next
  case (rx m saddr st1 n1 st2 n2)
  let ?e = "endianness en" and ?pc = "unat (packet_count cfg)"
  let ?n = "if st1 = Completed then n2 else 0"
  have len: "frame_max_size \<le> length m" "ETH_HLEN \<le> length m"
    using rx(3) by (simp_all add: geometry)
  have io: "io_calls (trace s') = replicate n1 IoRecv @ replicate ?n IoSend"
    unfolding rx(7) by (simp add: io_calls_simps)
  have sf: "sent_frames (trace s') = map (\<lambda>k. frame_of ?e m (of_nat k)) [0..<?n]"
    unfolding rx(7) by (simp add: sent_frames_simps)
  have le: "n1 \<le> ?pc" "?n \<le> ?pc"
    using recv_script_le [OF rx(4)] send_script_le [OF rx(5)] by simp_all
  have before: "n1 = ?pc \<and> (\<forall>j<?pc. j < length rs \<and> accepts ?e (of_nat j) (rs ! j))" if "0 < ?n"
  proof -
    from that have c: "st1 = Completed" by (simp split: if_splits)
    with rx(4) have n1: "n1 = ?pc" using recv_script_Completed by blast
    have "j < length rs \<and> accepts ?e (of_nat j) (rs ! j)" if "j < ?pc" for j
      using recv_script_accepted [OF rx(4), of j] c n1 that by simp
    with n1 show ?thesis by blast
  qed
  have fin: "n1 = ?pc \<and> ?n = ?pc" if "st = Completed"
  proof -
    from that rx(6) have c: "st1 = Completed" "st2 = Completed" by (simp_all split: if_splits)
    with rx(4,5) show ?thesis
      using recv_script_Completed send_script_Completed by auto
  qed
  have pw: "payload_words ?e (frame_of ?e m (of_nat k)) = (magic, of_nat k)" for k
    using load_frame_of(2,3) [OF len(2), of ?e "of_nat k"]
    by (simp add: payload_words_def load_u32_def u32_of_bytes_u32_bytes)
  have fr: "length (sent_frames (trace s') ! k) = frame_max_size \<and>
            payload_words ?e (sent_frames (trace s') ! k) = (magic, of_nat k)" if "k < ?n" for k
    using that sf pw by (simp add: length_frame_of [OF len(1)])
  have clk: "EvClock \<notin> set (trace s')"
    unfolding rx(7) by (simp add: no_clock)
  have out: "stdout_lines (trace s') = [ResponderBanner (iface_name cfg)]"
    unfolding rx(7) by (simp add: stdout_lines_simps)
  show ?thesis
    using io le before fin fr clk out sf
    by (intro exI [of _ n1] exI [of _ ?n]) simp
qed

theorem responder_phase_order_witness:
  "(let rs = [RecvFrame (sample_frame BigEndian [0, 0, 0, 0, 0, 0, 0, 0, 0, 0, 0, 0, 0, 0] magic 0),
              RecvFrame (sample_frame BigEndian [0, 0, 0, 0, 0, 0, 0, 0, 0, 0, 0, 0, 0, 0] magic 1)];
        run = main (sample_env BigEndian) (sample_cfg ''eth0'' False 2) [1514, 1514] rs
    in \<not> transmitter (sample_cfg ''eth0'' False 2)
       \<and> fst run = Completed
       \<and> io_calls (trace (snd run)) = [IoRecv, IoRecv, IoSend, IoSend]
       \<and> payload_words BigEndian (sent_frames (trace (snd run)) ! 1) = (magic, 1)
       \<and> EvClock \<notin> set (trace (snd run)))"
proof -
  let ?rs = "[RecvFrame (sample_frame BigEndian [0, 0, 0, 0, 0, 0, 0, 0, 0, 0, 0, 0, 0, 0] magic 0),
              RecvFrame (sample_frame BigEndian [0, 0, 0, 0, 0, 0, 0, 0, 0, 0, 0, 0, 0, 0] magic 1)]"
  let ?en = "sample_env BigEndian" and ?cfg = "sample_cfg ''eth0'' False 2"
  let ?run = "main ?en ?cfg [1514, 1514] ?rs"
  note ev = main_rx_eval [OF setup_ok_sample, of False 2 BigEndian ?rs Completed 2
      "[1514, 1514]" Completed 2, unfolded sample_fields, simplified, OF rx_two_ok tx_sends_ok]
  have c: "fst ?run = Completed" using ev by simp
  have r2: "replicate 2 x = [x, x]" for x :: io
    by (simp add: numeral_2_eq_2)
  have run: "main ?en ?cfg [1514, 1514] ?rs = (Completed, snd ?run)"
    using c by (simp add: prod_eq_iff)
  have nt: "\<not> transmitter ?cfg" by (simp add: sample_fields)
  have pc: "unat (packet_count ?cfg) = 2" by (simp add: sample_fields)
  from responder_phase_order [OF run nt, unfolded pc]
  obtain m n where mn: "io_calls (trace (snd ?run)) = replicate m IoRecv @ replicate n IoSend"
    "m = 2" "n = 2"
    "\<forall>k<n. payload_words (endianness ?en) (sent_frames (trace (snd ?run)) ! k) = (magic, of_nat k)"
    "EvClock \<notin> set (trace (snd ?run))"
    by blast
  have "(1::nat) < n" using mn(3) by simp
  from mn(4) [rule_format, OF this]
  have p: "payload_words BigEndian (sent_frames (trace (snd ?run)) ! 1) = (magic, 1)"
    by (simp add: sample_fields)
  from mn(1-3) have "io_calls (trace (snd ?run)) = [IoRecv, IoRecv, IoSend, IoSend]"
    by (simp add: r2)
  with p show ?thesis
    unfolding Let_def using c mn(5) by (simp add: sample_fields)
qed

text \<open>
  C6. Whenever a run prints the statistics line, the run is a transmitter run that
  completed, and the byte count on that line is exactly
  \<open>2 * packet_size * packet_count\<close> with \<open>packet_size = 1500\<close>: the product is formed
  in doubles, and for every 32-bit packet count it stays below \<open>2 ^ 53\<close>, so no
  rounding takes place. For a packet count of 1000 the value is 3000000.
\<close>

theorem bytes_transceived:
  assumes "main en cfg ss rs = (st, s')"
    and "EvStdout (SessionStats sec t bw) \<in> set (trace s')"
  shows "st = Completed \<and> transmitter cfg
       \<and> t = 2 * packet_size * unat (packet_count cfg)
       \<and> packet_size = 1500
       \<and> 2 * packet_size * unat (1000 :: u32) = 3000000"
proof -
  from assms(2) have mem: "SessionStats sec t bw \<in> set (stdout_lines (trace s'))"
    by (simp add: stdout_lines_mem)
  have ps: "packet_size = 1500" "2 * packet_size * unat (1000 :: u32) = 3000000"
    by (simp_all add: packet_size_def ETH_DATA_LEN_def)
  from assms(1) show ?thesis
  proof (cases rule: main_shape)
    case (fail err tr)
    with mem show ?thesis by (simp add: stdout_lines_simps)
  next
    case (rx m saddr st1 n1 st2 n2)
    with mem show ?thesis by (simp add: stdout_lines_simps split: if_splits)
  next
    case (tx m saddr st1 n1 st2 n2)
    from mem have "st1 = Completed \<and> st2 = Completed \<and>
        SessionStats sec t bw =
          report_line (packet_count cfg) (nsec (clock en (Suc 0)) - nsec (clock en 0))"
      unfolding tx(7) by (simp add: stdout_lines_simps split: if_splits)
    then show ?thesis
      using tx(2,6) ps
      by (auto simp add: report_line_def transceived_exact split: if_splits)
  qed
qed

theorem bytes_transceived_witness:
  "(let e = LittleEndian;
        rs = map (\<lambda>k. RecvFrame (sample_frame e [0, 0, 0, 0, 0, 0, 0, 0, 0, 0, 0, 0, 0, 0] magic
                                     (of_nat k))) [0..<1000];
        ss = replicate 1000 1514;
        run = main (sample_env e) (sample_cfg ''eth0'' True 1000) ss rs
    in fst run = Completed
       \<and> (\<exists>sec t bw. EvStdout (SessionStats sec t bw) \<in> set (trace (snd run)) \<and> t = 3000000))"
proof -
  let ?e = LittleEndian
  let ?h = "[0, 0, 0, 0, 0, 0, 0, 0, 0, 0, 0, 0, 0, 0 :: byte]"
  let ?rs = "map (\<lambda>k. RecvFrame (sample_frame ?e ?h magic (of_nat k))) [0..<1000]"
  let ?ss = "replicate 1000 (1514 :: int)"
  let ?en = "sample_env ?e" and ?cfg = "sample_cfg ''eth0'' True 1000"
  let ?run = "main ?en ?cfg ?ss ?rs"
  have h: "length ?h = ETH_HLEN" by (simp add: ETH_HLEN_def)
  have s1: "send_script 1000 ?ss = (Completed, 1000)"
    using send_script_all_ok [of 1000] by (simp add: geometry)
  have s2: "recv_script Transmitter ?e 1000 0 ?rs = (Completed, 1000)"
    using recv_script_all_ok [OF h, of Transmitter ?e 1000 0] by simp
  note ev = main_tx_eval [OF setup_ok_sample, of True 1000 ?ss Completed 1000 ?e
      ?rs Completed 1000, unfolded sample_fields, simplified, OF s1 s2]
  have c: "fst ?run = Completed" using ev by simp
  have dt: "nsec (clock ?en (Suc 0)) - nsec (clock ?en 0) = 1000"
    by (simp add: nsec_def sample_env_def)
  have "report_line 1000 1000 \<in> set (stdout_lines (trace (snd ?run)))"
    using ev(5) dt by simp
  then obtain sec t bw where m: "EvStdout (SessionStats sec t bw) \<in> set (trace (snd ?run))"
    by (auto simp: stdout_lines_mem report_line_def)
  from bytes_transceived [of ?en ?cfg ?ss ?rs "fst ?run" "snd ?run" sec t bw] m
  have "t = 3000000"
    by (simp add: sample_fields packet_size_def ETH_DATA_LEN_def)
  with m c show ?thesis
    unfolding Let_def by blast
qed

text \<open>
  C7. In a transmitter run that completed, \<open>dt\<close> is the difference of the two clock
  readings, the first taken before any frame transfer and the second after the last
  one. When \<open>dt\<close> is zero the run prints its banner and \<open>session failed\<close> and no
  statistics line, so no quotient by the elapsed time is formed. When \<open>dt\<close> is not zero
  it prints one statistics line, whose elapsed time is \<open>double(dt) * 1e-9\<close>, a
  positive number, and whose bandwidth is the byte count divided by that elapsed time.
\<close>

theorem zero_duration_session_failed:
  assumes "main en cfg ss rs = (Completed, s')" "transmitter cfg"
  shows "(nsec (clock en 1) - nsec (clock en 0) = 0 \<longrightarrow>
            stdout_lines (trace s') = [TransmitterBanner (iface_name cfg), SessionFailed])
       \<and> (nsec (clock en 1) - nsec (clock en 0) \<noteq> 0 \<longrightarrow>
            (\<exists>sec t bw.
                stdout_lines (trace s') = [TransmitterBanner (iface_name cfg), SessionStats sec t bw]
              \<and> sec = real (double_of_nat (unat (nsec (clock en 1) - nsec (clock en 0)))) / 10 ^ 9
              \<and> 0 < sec \<and> bw = real t / sec))
       \<and> (\<exists>pre mid l.
              trace s' = pre @ [EvClock] @ mid @ [EvClock, EvStdout l]
            \<and> io_calls pre = [] \<and> EvClock \<notin> set pre \<and> EvClock \<notin> set mid
            \<and> io_calls mid = replicate (unat (packet_count cfg)) IoSend @
                              replicate (unat (packet_count cfg)) IoRecv)"
  using assms(1)
proof (cases rule: main_shape)
  case (fail err tr)
  then show ?thesis by simp
next
  case (rx m saddr st1 n1 st2 n2)
  with assms(2) show ?thesis by simp
next
  case (tx m saddr st1 n1 st2 n2)
  let ?dt = "nsec (clock en 1) - nsec (clock en 0)"
  let ?pc = "unat (packet_count cfg)"
  from tx(6) have c: "st1 = Completed" "st2 = Completed" by (simp_all split: if_splits)
  with tx(4,5) have n: "n1 = ?pc" "n2 = ?pc"
    using send_script_Completed recv_script_Completed by auto
  let ?pre = "setup_events cfg saddr @ [EvStdout (TransmitterBanner (iface_name cfg))]"
  let ?mid = "send_events (endianness en) saddr m ?pc @ replicate ?pc EvRecvfrom"
  have tr: "trace s' = ?pre @ [EvClock] @ ?mid @
              [EvClock, EvStdout (report_line (packet_count cfg) ?dt)]"
    unfolding tx(7) using c n by simp
  have out: "stdout_lines (trace s') =
               [TransmitterBanner (iface_name cfg), report_line (packet_count cfg) ?dt]"
    unfolding tr by (simp add: stdout_lines_simps)
  have A: "stdout_lines (trace s') = [TransmitterBanner (iface_name cfg), SessionFailed]"
    if "?dt = 0"
    using that out by (simp add: report_line_def)
  have B: "\<exists>sec t bw.
                stdout_lines (trace s') = [TransmitterBanner (iface_name cfg), SessionStats sec t bw]
              \<and> sec = real (double_of_nat (unat ?dt)) / 10 ^ 9
              \<and> 0 < sec \<and> bw = real t / sec"
    if "?dt \<noteq> 0"
  proof -
    let ?X = "real (double_of_nat (unat ?dt)) / 10 ^ 9"
    let ?T = "double_mult (double_mult (double_of_nat packet_size) (double_of_nat ?pc)) 2"
    from that have "0 < unat ?dt" by (simp add: unat_gt_0)
    then have "0 < double_of_nat (unat ?dt)" by (rule double_of_nat_pos)
    then have pos: "0 < ?X" by simp
    have "report_line (packet_count cfg) ?dt = SessionStats ?X ?T (real ?T / ?X)"
      using that by (simp add: report_line_def)
    with out have "stdout_lines (trace s') =
        [TransmitterBanner (iface_name cfg), SessionStats ?X ?T (real ?T / ?X)]"
      by (simp only:)
    with pos show ?thesis by blast
  qed
  have C: "\<exists>pre mid l.
              trace s' = pre @ [EvClock] @ mid @ [EvClock, EvStdout l]
            \<and> io_calls pre = [] \<and> EvClock \<notin> set pre \<and> EvClock \<notin> set mid
            \<and> io_calls mid = replicate ?pc IoSend @ replicate ?pc IoRecv"
    using tr
    by (intro exI [of _ ?pre] exI [of _ ?mid]
          exI [of _ "report_line (packet_count cfg) ?dt"])
       (simp add: io_calls_simps no_clock)
  from A B C show ?thesis by blast
qed

theorem zero_duration_session_failed_witness:
  "(let rs = [RecvFrame (sample_frame LittleEndian [0, 0, 0, 0, 0, 0, 0, 0, 0, 0, 0, 0, 0, 0] magic 0),
              RecvFrame (sample_frame LittleEndian [0, 0, 0, 0, 0, 0, 0, 0, 0, 0, 0, 0, 0, 0] magic 1)];
        cfg = sample_cfg ''eth0'' True 2;
        en0 = (sample_env LittleEndian)\<lparr>clock := (\<lambda>k. \<lparr>tv_sec = 7, tv_nsec = 0\<rparr>)\<rparr>;
        en1 = sample_env LittleEndian;
        run0 = main en0 cfg [1514, 1514] rs;
        run1 = main en1 cfg [1514, 1514] rs
    in transmitter cfg
       \<and> fst run0 = Completed \<and> nsec (clock en0 1) - nsec (clock en0 0) = 0
       \<and> stdout_lines (trace (snd run0)) = [TransmitterBanner ''eth0'', SessionFailed]
       \<and> fst run1 = Completed \<and> nsec (clock en1 1) - nsec (clock en1 0) \<noteq> 0
       \<and> (\<exists>sec t bw. stdout_lines (trace (snd run1)) = [TransmitterBanner ''eth0'', SessionStats sec t bw]
              \<and> 0 < sec \<and> bw = real t / sec))"
proof -
  let ?rs = "[RecvFrame (sample_frame LittleEndian [0, 0, 0, 0, 0, 0, 0, 0, 0, 0, 0, 0, 0, 0] magic 0),
              RecvFrame (sample_frame LittleEndian [0, 0, 0, 0, 0, 0, 0, 0, 0, 0, 0, 0, 0, 0] magic 1)]"
  let ?cfg = "sample_cfg ''eth0'' True 2"
  let ?en0 = "(sample_env LittleEndian)\<lparr>clock := (\<lambda>k. \<lparr>tv_sec = 7, tv_nsec = 0\<rparr>)\<rparr>"
  let ?en1 = "sample_env LittleEndian"
  let ?run0 = "main ?en0 ?cfg [1514, 1514] ?rs" and ?run1 = "main ?en1 ?cfg [1514, 1514] ?rs"
  have e0: "endianness ?en0 = LittleEndian" by (simp add: sample_env_def)
  have tx: "transmitter ?cfg" by (simp add: sample_fields)
  have c0: "fst ?run0 = Completed"
    using main_tx_eval(1)
        [OF setup_ok_sample_clock [where e = LittleEndian and tx = True and n = 2
               and c = "\<lambda>k. \<lparr>tv_sec = 7, tv_nsec = 0\<rparr>"],
         of "[1514, 1514]" Completed 2 ?rs Completed 2]
    unfolding sample_fields e0 by (simp add: tx_sends_ok rx_two_ok)
  have c1: "fst ?run1 = Completed"
    using main_tx_eval(1) [OF setup_ok_sample, of True 2 "[1514, 1514]" Completed 2
        LittleEndian ?rs Completed 2]
    unfolding sample_fields by (simp add: tx_sends_ok rx_two_ok)
  have d0: "nsec (clock ?en0 1) - nsec (clock ?en0 0) = 0" by simp
  have d1: "nsec (clock ?en1 1) - nsec (clock ?en1 0) \<noteq> 0"
    by (simp add: nsec_def sample_env_def)
  have r0: "main ?en0 ?cfg [1514, 1514] ?rs = (Completed, snd ?run0)"
    using c0 by (simp add: prod_eq_iff)
  have r1: "main ?en1 ?cfg [1514, 1514] ?rs = (Completed, snd ?run1)"
    using c1 by (simp add: prod_eq_iff)
  from zero_duration_session_failed [OF r0 tx] d0
  have A: "stdout_lines (trace (snd ?run0)) = [TransmitterBanner ''eth0'', SessionFailed]"
    by (simp add: sample_fields)
  from zero_duration_session_failed [OF r1 tx] d1
  have B: "\<exists>sec t bw. stdout_lines (trace (snd ?run1)) =
                [TransmitterBanner ''eth0'', SessionStats sec t bw] \<and> 0 < sec \<and> bw = real t / sec"
    unfolding sample_fields by blast
  show ?thesis
    unfolding Let_def using tx c0 c1 d0 d1 A B by simp
qed

text \<open>
  C8. A run in which the socket is open and the interface name is short enough, and
  in which the index query or the hardware-address query fails, ends with the
  interface-lookup diagnostic as its last message and \<open>main\<close> returns \<open>-1\<close>; it makes
  no \<open>sendto\<close> and no \<open>recvfrom\<close>. And in any run that makes a \<open>sendto\<close> or a
  \<open>recvfrom\<close>, both queries have succeeded and the trace starts with the socket and
  the two queries, so they come before the first frame transfer.
\<close>

theorem interface_lookup_first:
  assumes "main en cfg ss rs = (st, s')"
  shows "(malloc en \<noteq> None \<and> 0 \<le> socket_fd en \<and> length (iface_name cfg) < IFNAMSIZ \<and>
          (ifindex en (iface_name cfg) = None \<or> hwaddr en (iface_name cfg) = None) \<longrightarrow>
            (\<exists>q. st = Aborted (InterfaceLookupError q) \<and>
                 last (trace s') = EvStderr (InterfaceLookupError q)) \<and>
            main_return st = Some (- 1) \<and> io_calls (trace s') = [])
       \<and> (io_calls (trace s') \<noteq> [] \<longrightarrow>
            ifindex en (iface_name cfg) \<noteq> None \<and> hwaddr en (iface_name cfg) \<noteq> None \<and>
            (\<exists>post. trace s' = [EvSocket, EvIoctl SIOCGIFINDEX (iface_name cfg),
                                 EvIoctl SIOCGIFHWADDR (iface_name cfg)] @ post))"
proof (rule conjI; rule impI)
  assume a: "malloc en \<noteq> None \<and> 0 \<le> socket_fd en \<and> length (iface_name cfg) < IFNAMSIZ \<and>
          (ifindex en (iface_name cfg) = None \<or> hwaddr en (iface_name cfg) = None)"
  then have "\<not> setup_ok en cfg" by (auto simp: setup_ok_def)
  from main_fail [OF this assms] a
  show "(\<exists>q. st = Aborted (InterfaceLookupError q) \<and>
                 last (trace s') = EvStderr (InterfaceLookupError q)) \<and>
            main_return st = Some (- 1) \<and> io_calls (trace s') = []"
    by (elim disjE conjE exE) (simp_all add: io_calls_simps)
next
  assume io: "io_calls (trace s') \<noteq> []"
  from assms show "ifindex en (iface_name cfg) \<noteq> None \<and> hwaddr en (iface_name cfg) \<noteq> None \<and>
            (\<exists>post. trace s' = [EvSocket, EvIoctl SIOCGIFINDEX (iface_name cfg),
                                 EvIoctl SIOCGIFHWADDR (iface_name cfg)] @ post)"
  proof (cases rule: main_shape)
    case (fail err tr)
    with io show ?thesis by (simp add: io_calls_simps)
  next
    case (tx m saddr st1 n1 st2 n2)
    then show ?thesis by (simp add: setup_ok_def setup_events_def)
  next
    case (rx m saddr st1 n1 st2 n2)
    then show ?thesis by (simp add: setup_ok_def setup_events_def)
  qed
qed

theorem interface_lookup_first_witness:
  "(let en = sample_env LittleEndian; cfg = sample_cfg ''eth1'' True 2; run = main en cfg [] []
    in malloc en \<noteq> None \<and> 0 \<le> socket_fd en \<and> length (iface_name cfg) < IFNAMSIZ
       \<and> ifindex en (iface_name cfg) = None
       \<and> (\<exists>q. fst run = Aborted (InterfaceLookupError q)) \<and> io_calls (trace (snd run)) = [])
   \<and> (let en = (sample_env BigEndian)\<lparr>hwaddr := (\<lambda>n. None)\<rparr>; cfg = sample_cfg ''eth0'' False 2;
           run = main en cfg [] []
       in malloc en \<noteq> None \<and> 0 \<le> socket_fd en \<and> length (iface_name cfg) < IFNAMSIZ
          \<and> ifindex en (iface_name cfg) \<noteq> None \<and> hwaddr en (iface_name cfg) = None
          \<and> (\<exists>q. fst run = Aborted (InterfaceLookupError q)) \<and> io_calls (trace (snd run)) = [])
   \<and> (let en = sample_env LittleEndian; cfg = sample_cfg ''eth0'' True 2;
           run = main en cfg [1514, 7] []
       in io_calls (trace (snd run)) \<noteq> []
          \<and> ifindex en (iface_name cfg) \<noteq> None \<and> hwaddr en (iface_name cfg) \<noteq> None
          \<and> (\<exists>post. trace (snd run) =
                 [EvSocket, EvIoctl SIOCGIFINDEX ''eth0'', EvIoctl SIOCGIFHWADDR ''eth0''] @ post))"
proof -
  let ?en1 = "sample_env LittleEndian" and ?cfg1 = "sample_cfg ''eth1'' True 2"
  let ?run1 = "main ?en1 ?cfg1 [] []"
  have h1: "malloc ?en1 \<noteq> None \<and> 0 \<le> socket_fd ?en1 \<and> length (iface_name ?cfg1) < IFNAMSIZ \<and>
            (ifindex ?en1 (iface_name ?cfg1) = None \<or> hwaddr ?en1 (iface_name ?cfg1) = None)"
    by (simp add: sample_env_def sample_cfg_def IFNAMSIZ_def)
  from interface_lookup_first [OF prod.collapse [symmetric], THEN conjunct1, rule_format, OF h1]
  have A: "(\<exists>q. fst ?run1 = Aborted (InterfaceLookupError q)) \<and> io_calls (trace (snd ?run1)) = []"
    by blast
  let ?en2 = "(sample_env BigEndian)\<lparr>hwaddr := (\<lambda>n. None)\<rparr>" and ?cfg2 = "sample_cfg ''eth0'' False 2"
  let ?run2 = "main ?en2 ?cfg2 [] []"
  have h2: "malloc ?en2 \<noteq> None \<and> 0 \<le> socket_fd ?en2 \<and> length (iface_name ?cfg2) < IFNAMSIZ \<and>
            (ifindex ?en2 (iface_name ?cfg2) = None \<or> hwaddr ?en2 (iface_name ?cfg2) = None)"
    by (simp add: sample_env_def sample_cfg_def IFNAMSIZ_def)
  from interface_lookup_first [OF prod.collapse [symmetric], THEN conjunct1, rule_format, OF h2]
  have B: "(\<exists>q. fst ?run2 = Aborted (InterfaceLookupError q)) \<and> io_calls (trace (snd ?run2)) = []"
    by blast
  let ?en3 = "sample_env LittleEndian" and ?cfg3 = "sample_cfg ''eth0'' True 2"
  let ?run3 = "main ?en3 ?cfg3 [1514, 7] []"
  have "send_calls (trace (snd ?run3)) = 2"
    using main_tx_eval(2) [OF setup_ok_sample _ _ prod.collapse [symmetric],
        of True 2 "[1514, 7]" "Aborted ShortSendError" 2 LittleEndian "[]"]
    unfolding sample_fields by (simp add: tx_short_send)
  then have io: "io_calls (trace (snd ?run3)) \<noteq> []"
    by (auto simp: send_calls_def)
  from interface_lookup_first [OF prod.collapse [symmetric], THEN conjunct2, rule_format, OF io]
  have C: "ifindex ?en3 (iface_name ?cfg3) \<noteq> None \<and> hwaddr ?en3 (iface_name ?cfg3) \<noteq> None \<and>
          (\<exists>post. trace (snd ?run3) =
                 [EvSocket, EvIoctl SIOCGIFINDEX ''eth0'', EvIoctl SIOCGIFHWADDR ''eth0''] @ post)"
    by (simp add: sample_fields)
  show ?thesis
    unfolding Let_def using A B C io h1 h2
    by (simp add: sample_env_def sample_cfg_def)
qed

text \<open>
  C9. The send loop, entered at any index with a buffer that holds the outgoing frame,
  leaves the buffer as long as it was and changes no byte of it outside the first
  eight bytes of the outgoing payload; the fourteen header bytes at \<open>frame0\<close> are the
  same after the loop as before it, and every frame the loop hands to \<open>sendto\<close> is a
  full frame with exactly these header bytes and with the payload bytes after the
  first eight as they were in the buffer. A loop of one iteration is one instance, so
  this holds of every iteration. Both roles run this loop. Seen from a whole run of
  \<open>main\<close>: any two frames sent in one run have the same header and differ at most
  in the first eight payload bytes.
\<close>

theorem send_loop_frame_effect:
  "(send_loop e saddr pc i s = (st, s') \<and> frame_max_size \<le> length (mem s) \<longrightarrow>
      length (mem s') = length (mem s)
    \<and> (\<forall>b<length (mem s). \<not> (payload0 \<le> b \<and> b < payload0 + 8) \<longrightarrow> mem s' ! b = mem s ! b)
    \<and> load (mem s') frame0 ETH_HLEN = load (mem s) frame0 ETH_HLEN
    \<and> (\<exists>fs. sent_frames (trace s') = sent_frames (trace s) @ fs \<and>
             (\<forall>f\<in>set fs. length f = frame_max_size
                  \<and> load f 0 ETH_HLEN = load (mem s) frame0 ETH_HLEN
                  \<and> drop (ETH_HLEN + 8) f =
                      load (mem s) (payload0 + 8) (frame_max_size - (ETH_HLEN + 8)))))
   \<and> (main en cfg ss rs = (st', t') \<longrightarrow>
        (\<forall>f\<in>set (sent_frames (trace t')). \<forall>g\<in>set (sent_frames (trace t')).
            load f 0 ETH_HLEN = load g 0 ETH_HLEN \<and> drop (ETH_HLEN + 8) f = drop (ETH_HLEN + 8) g))"
proof (rule conjI; rule impI)
  assume a: "send_loop e saddr pc i s = (st, s') \<and> frame_max_size \<le> length (mem s)"
  then have len: "frame_max_size \<le> length (mem s)" "ETH_HLEN + 8 \<le> length (mem s)"
    "ETH_HLEN \<le> length (mem s)"
    by (simp_all add: geometry)
  obtain st0 n where sn: "send_script (unat pc - unat i) (sends s) = (st0, n)"
    by (cases "send_script (unat pc - unat i) (sends s)")
  from a send_loop_script [OF len(1), of e saddr pc i] sn
  have m: "mem s' = (if n = 0 then mem s else stamp e (mem s) (i + of_nat (n - 1)))"
    and t: "trace s' = trace s @
              map (\<lambda>k. EvSendto (frame_of e (mem s) (i + of_nat k)) saddr) [0..<n] @ stderr_of st0"
    by auto
  let ?fs = "map (\<lambda>k. frame_of e (mem s) (i + of_nat k)) [0..<n]"
  have sf: "sent_frames (trace s') = sent_frames (trace s) @ ?fs"
    unfolding t by (simp add: sent_frames_simps sent_frames_map)
  have fr: "length f = frame_max_size
                  \<and> load f 0 ETH_HLEN = load (mem s) frame0 ETH_HLEN
                  \<and> drop (ETH_HLEN + 8) f =
                      load (mem s) (payload0 + 8) (frame_max_size - (ETH_HLEN + 8))"
    if "f \<in> set ?fs" for f
    using that
    by (auto simp add: length_frame_of [OF len(1)] load_frame_of [OF len(3)])
       (simp_all add: load_def geometry)
  show "length (mem s') = length (mem s)
    \<and> (\<forall>b<length (mem s). \<not> (payload0 \<le> b \<and> b < payload0 + 8) \<longrightarrow> mem s' ! b = mem s ! b)
    \<and> load (mem s') frame0 ETH_HLEN = load (mem s) frame0 ETH_HLEN
    \<and> (\<exists>fs. sent_frames (trace s') = sent_frames (trace s) @ fs \<and>
             (\<forall>f\<in>set fs. length f = frame_max_size
                  \<and> load f 0 ETH_HLEN = load (mem s) frame0 ETH_HLEN
                  \<and> drop (ETH_HLEN + 8) f =
                      load (mem s) (payload0 + 8) (frame_max_size - (ETH_HLEN + 8))))"
    using sf fr
    by (auto simp add: m length_stamp [OF len(2)] nth_stamp [OF len(2)] load_stamp_header [OF len(2)])
next
  assume "main en cfg ss rs = (st', t')"
  then show "\<forall>f\<in>set (sent_frames (trace t')). \<forall>g\<in>set (sent_frames (trace t')).
            load f 0 ETH_HLEN = load g 0 ETH_HLEN \<and> drop (ETH_HLEN + 8) f = drop (ETH_HLEN + 8) g"
  proof (cases rule: main_shape)
    case (fail err tr)
    then show ?thesis by (simp add: sent_frames_simps sent_frames_no_io)
  next
    case (tx m saddr st1 n1 st2 n2)
    have "ETH_HLEN \<le> length m" using tx(3) by (simp add: geometry)
    note lf = load_frame_of(1,4) [OF this]
    show ?thesis
      unfolding tx(7) by (auto simp add: sent_frames_simps lf)
  next
    case (rx m saddr st1 n1 st2 n2)
    have "ETH_HLEN \<le> length m" using rx(3) by (simp add: geometry)
    note lf = load_frame_of(1,4) [OF this]
    show ?thesis
      unfolding rx(7) by (auto simp add: sent_frames_simps lf)
  qed
qed

theorem send_loop_frame_effect_witness:
  "(let s = \<lparr>mem = replicate 3028 0xAB, sends = [1514, 1514], recvs = [], ticks = 0, trace = []\<rparr>;
        saddr = \<lparr>sll_family = AF_PACKET, sll_protocol = 8, sll_ifindex = 2,
                 sll_hatype = ARPHRD_ETHER, sll_pkttype = PACKET_OTHERHOST, sll_halen = 6,
                 sll_addr = [2, 0, 0, 0, 0, 2, 0, 0]\<rparr>;
        r = send_loop LittleEndian saddr 2 0 s
    in frame_max_size \<le> length (mem s)
       \<and> fst r = Completed
       \<and> length (mem (snd r)) = 3028
       \<and> load (mem (snd r)) frame0 ETH_HLEN = replicate 14 0xAB
       \<and> mem (snd r) ! 22 = 0xAB)
   \<and> (let rs = [RecvFrame (sample_frame LittleEndian [0, 0, 0, 0, 0, 0, 0, 0, 0, 0, 0, 0, 0, 0] magic 0),
                 RecvFrame (sample_frame LittleEndian [0, 0, 0, 0, 0, 0, 0, 0, 0, 0, 0, 0, 0, 0] magic 1)];
           run = main (sample_env LittleEndian) (sample_cfg ''eth0'' True 2) [1514, 1514] rs;
           fs = sent_frames (trace (snd run))
       in length fs = 2
          \<and> load (fs ! 0) 0 ETH_HLEN = load (fs ! 1) 0 ETH_HLEN
          \<and> drop (ETH_HLEN + 8) (fs ! 0) = drop (ETH_HLEN + 8) (fs ! 1))"
proof -
  let ?s = "\<lparr>mem = replicate 3028 (0xAB :: byte), sends = [1514, 1514], recvs = [], ticks = 0,
              trace = []\<rparr>"
  let ?a = "\<lparr>sll_family = AF_PACKET, sll_protocol = 8, sll_ifindex = 2,
                 sll_hatype = ARPHRD_ETHER, sll_pkttype = PACKET_OTHERHOST, sll_halen = 6,
                 sll_addr = [2, 0, 0, 0, 0, 2, 0, 0]\<rparr>"
  let ?r = "send_loop LittleEndian ?a 2 0 ?s"
  have len: "frame_max_size \<le> length (mem ?s)" by (simp add: geometry)
  have sc: "send_script (unat (2::u32) - unat (0::u32)) (sends ?s) = (Completed, 2)"
    by (simp add: tx_sends_ok)
  have c: "fst ?r = Completed"
    by (rule send_loop_fields(1) [OF len sc])
  have hyp: "send_loop LittleEndian ?a 2 0 ?s = (fst ?r, snd ?r) \<and> frame_max_size \<le> length (mem ?s)"
    using len by simp
  from send_loop_frame_effect [THEN conjunct1, rule_format, OF hyp]
  have "length (mem (snd ?r)) = length (mem ?s)"
    and nth: "\<forall>b<length (mem ?s). \<not> (payload0 \<le> b \<and> b < payload0 + 8) \<longrightarrow>
              mem (snd ?r) ! b = mem ?s ! b"
    and "load (mem (snd ?r)) frame0 ETH_HLEN = load (mem ?s) frame0 ETH_HLEN"
    by blast+
  moreover have "mem (snd ?r) ! 22 = mem ?s ! 22"
    using nth [rule_format, of 22] by (simp add: geometry)
  ultimately have A: "length (mem (snd ?r)) = 3028"
    "load (mem (snd ?r)) frame0 ETH_HLEN = replicate 14 0xAB" "mem (snd ?r) ! 22 = 0xAB"
    by (simp_all add: load_def geometry)
  let ?rs = "[RecvFrame (sample_frame LittleEndian [0, 0, 0, 0, 0, 0, 0, 0, 0, 0, 0, 0, 0, 0] magic 0),
              RecvFrame (sample_frame LittleEndian [0, 0, 0, 0, 0, 0, 0, 0, 0, 0, 0, 0, 0, 0] magic 1)]"
  let ?en = "sample_env LittleEndian" and ?cfg = "sample_cfg ''eth0'' True 2"
  let ?run = "main ?en ?cfg [1514, 1514] ?rs"
  let ?fs = "sent_frames (trace (snd ?run))"
  note ev = main_tx_eval [OF setup_ok_sample, of True 2 "[1514, 1514]" Completed 2 LittleEndian
      ?rs Completed 2, unfolded sample_fields, simplified, OF tx_sends_ok rx_two_ok]
  have n: "length ?fs = 2" using ev by simp
  then have mem: "?fs ! 0 \<in> set ?fs" "?fs ! 1 \<in> set ?fs" by simp_all
  from send_loop_frame_effect [THEN conjunct2, rule_format, OF prod.collapse [symmetric],
      rule_format, OF mem]
  have B: "load (?fs ! 0) 0 ETH_HLEN = load (?fs ! 1) 0 ETH_HLEN"
    "drop (ETH_HLEN + 8) (?fs ! 0) = drop (ETH_HLEN + 8) (?fs ! 1)"
    by blast+
  show ?thesis
    unfolding Let_def using len c A B n by simp
qed

end
